theory Spec2Isabelle
  imports Main "HOL-Library.Word" "HOL-Library.List_Lexorder" "HOL-Library.Multiset"
begin

section \<open>DirHash: data model\<close>

text \<open>
  The program is a Windows UNICODE build: \<open>TCHAR\<close> is a 16-bit \<open>wchar_t\<close>, a \<open>DWORD\<close>
  is 32 bits wide and a \<open>BYTE\<close> 8. A C string is modelled as the list of its characters
  before the terminating NUL.
\<close>

type_synonym BYTE = "8 word"
type_synonym TCHAR = "16 word"
type_synonym DWORD = "32 word"
type_synonym wstring = "TCHAR list"

definition MAX_PATH :: nat where
  "MAX_PATH = 260"

definition NO_ERROR :: DWORD where
  "NO_ERROR = 0"

definition ERROR_NO_MORE_FILES :: DWORD where
  "ERROR_NO_MORE_FILES = 18"

text \<open>The \<open>_T("...")\<close> macro: a wide string literal.\<close>

definition wide :: "string \<Rightarrow> wstring" where
  "wide s = map (\<lambda>c. of_nat (of_char c)) s"

text \<open>
  \<open>(LPBYTE) sz, _tcslen (sz) * sizeof(TCHAR)\<close>: the bytes of a wide string as they lie in
  memory, two per character, low byte first.
\<close>

definition tbytes :: "wstring \<Rightarrow> BYTE list" where
  "tbytes sz = concat (map (\<lambda>c. [ucast c, ucast (drop_bit 8 c)]) sz)"

subsection \<open>Case-insensitive comparison\<close>

text \<open>
  The program never calls \<open>setlocale\<close>, so \<open>_wcsicmp\<close> lowers the letters A to Z only.
  Its result is documented by its sign: negative, zero or positive as the lowered first
  string is lexicographically below, equal to or above the lowered second one.
\<close>

definition towlower :: "TCHAR \<Rightarrow> TCHAR" where
  "towlower c = (if 0x41 \<le> c \<and> c \<le> 0x5A then c + 0x20 else c)"

fun wcsicmp :: "wstring \<Rightarrow> wstring \<Rightarrow> int" where
  "wcsicmp [] [] = 0"
| "wcsicmp [] (l # second) = -1"
| "wcsicmp (f # first) [] = 1"
| "wcsicmp (f # first) (l # second) =
     (if towlower f = towlower l then wcsicmp first second
      else if towlower f < towlower l then -1 else 1)"

definition compare_nocase :: "wstring \<Rightarrow> wstring \<Rightarrow> bool" where
  "compare_nocase first second = (wcsicmp first second < 0)"

subsection \<open>The hash object\<close>

text \<open>
  The five subclasses of \<open>Hash\<close> wrap an OpenSSL context. The context is modelled by
  what determines it: the arguments of the \<open>Update\<close> calls made since \<open>Init\<close>, in
  call order. \<open>Final\<close> hands their concatenation to the algorithm.
\<close>

datatype HashAlgo = Md5 | Sha1 | Sha256 | Sha384 | Sha512

record Hash =
  algo :: HashAlgo
  m_ctx :: "BYTE list list"

definition Init :: "HashAlgo \<Rightarrow> Hash" where
  "Init a = \<lparr>algo = a, m_ctx = []\<rparr>"

definition Update :: "Hash \<Rightarrow> BYTE list \<Rightarrow> Hash" where
  "Update pHash pbData = pHash\<lparr>m_ctx := m_ctx pHash @ [pbData]\<rparr>"

fun GetHashSize :: "HashAlgo \<Rightarrow> nat" where
  "GetHashSize Md5 = 16"
| "GetHashSize Sha1 = 20"
| "GetHashSize Sha256 = 32"
| "GetHashSize Sha384 = 48"
| "GetHashSize Sha512 = 64"

fun GetID :: "HashAlgo \<Rightarrow> wstring" where
  "GetID Md5 = wide ''MD5''"
| "GetID Sha1 = wide ''SHA1''"
| "GetID Sha256 = wide ''SHA256''"
| "GetID Sha384 = wide ''SHA384''"
| "GetID Sha512 = wide ''SHA512''"

definition GetHash :: "wstring option \<Rightarrow> HashAlgo option" where
  "GetHash szHashId =
     (case szHashId of
        None \<Rightarrow> Some Sha1
      | Some s \<Rightarrow>
          if wcsicmp s (wide ''SHA1'') = 0 then Some Sha1
          else if wcsicmp s (wide ''SHA256'') = 0 then Some Sha256
          else if wcsicmp s (wide ''SHA384'') = 0 then Some Sha384
          else if wcsicmp s (wide ''SHA512'') = 0 then Some Sha512
          else if wcsicmp s (wide ''MD5'') = 0 then Some Md5
          else None)"

subsection \<open>The libraries the program calls\<close>

text \<open>
  \<open>PathMatchSpec\<close>, \<open>PathCanonicalize\<close> and \<open>PathFindFileName\<close> come from shlwapi,
  \<open>StringCchLength\<close> from strsafe.h, the digest functions from OpenSSL. None of them is
  code of the program, so the program is modelled over any behaviour of theirs:
  \<open>PathCanonicalize\<close> yields \<open>None\<close> where the call returns FALSE,
  \<open>StringCchLength psz cchMax\<close> is the value the call leaves in its output parameter
  (the program ignores the result code), and \<open>digest a\<close> is the one-shot hash function
  of algorithm \<open>a\<close>.
\<close>

record extern =
  PathMatchSpec :: "wstring \<Rightarrow> wstring \<Rightarrow> bool"
  PathCanonicalize :: "wstring \<Rightarrow> wstring option"
  PathFindFileName :: "wstring \<Rightarrow> wstring"
  StringCchLength :: "wstring \<Rightarrow> nat \<Rightarrow> nat"
  digest :: "HashAlgo \<Rightarrow> BYTE list \<Rightarrow> BYTE list"

definition Final :: "extern \<Rightarrow> Hash \<Rightarrow> BYTE list" where
  "Final x pHash = digest x (algo pHash) (concat (m_ctx pHash))"

subsection \<open>The file system\<close>

text \<open>
  What the traversal reads of the file system is a tree. A file is \<open>Inr\<close> of the bytes
  \<open>fread\<close> delivers, or \<open>Inl\<close> of the error code the system reports when \<open>_tfopen\<close>
  fails (a code the program never reads). A directory is the sequence of entries
  that \<open>FindFirstFile\<close> and \<open>FindNextFile\<close> report, in the order the file system reports
  them (with the entries \<open>.\<close> and \<open>..\<close> where it reports them), and the value of
  \<open>GetLastError\<close> after the call that reports no further entry; no entry at all means
  that \<open>FindFirstFile\<close> itself fails. An entry has the directory attribute iff its node
  is a directory.
\<close>

datatype fsnode =
  FsFile "DWORD + BYTE list"
| FsDir "(wstring \<times> fsnode) list" DWORD

fun is_dir :: "fsnode \<Rightarrow> bool" where
  "is_dir (FsDir entries lastError) = True"
| "is_dir (FsFile f) = False"

section \<open>The traversal\<close>

subsection \<open>CDirContent\<close>

record CDirContent =
  m_szPath :: wstring
  m_bIsDir :: bool

text \<open>
  The constructor reads \<open>szPath[wcslen(szPath) - 1]\<close>. For an empty \<open>szPath\<close> that is a
  read before the start of the string, which C++ leaves undefined: the model returns
  \<open>None\<close> there. Both tests look at the last character of the argument \<open>szPath\<close>, not
  of the member being built.
\<close>

definition CDirContent_ctor :: "wstring \<Rightarrow> wstring \<Rightarrow> bool \<Rightarrow> CDirContent option" where
  "CDirContent_ctor szPath szName bIsDir =
     (if szPath = [] then None
      else
        let p1 = (if last szPath = 0x2F then butlast szPath @ [0x5C] else szPath);
            p2 = (if last szPath \<noteq> 0x5C then p1 @ [0x5C] else p1)
        in Some \<lparr>m_szPath = p2 @ szName, m_bIsDir = bIsDir\<rparr>)"

definition IsDir :: "CDirContent \<Rightarrow> bool" where
  "IsDir c = m_bIsDir c"

definition GetPath :: "CDirContent \<Rightarrow> wstring" where
  "GetPath c = m_szPath c"

subsection \<open>IsExcludedName\<close>

fun IsExcludedName :: "extern \<Rightarrow> wstring \<Rightarrow> wstring list \<Rightarrow> bool" where
  "IsExcludedName x szName [] = False"
| "IsExcludedName x szName (spec # rest) =
     (if PathMatchSpec x szName spec then True else IsExcludedName x szName rest)"

subsection \<open>HashFile\<close>

text \<open>
  The read loop: \<open>fread\<close> fills the 4096-byte buffer from what is left of the file and
  the loop ends at the first read that delivers nothing.
\<close>

function fread_loop :: "BYTE list \<Rightarrow> Hash \<Rightarrow> Hash" where
  "fread_loop f pHash =
     (let len = min 4096 (length f)
      in if len \<noteq> 0 then fread_loop (drop len f) (Update pHash (take len f)) else pHash)"
  by pat_completeness auto
termination
  by (relation "measure (\<lambda>(f, pHash). length f)") auto

declare fread_loop.simps [simp del]

text \<open>
  The block that both \<open>HashFile\<close> and \<open>HashDirectory\<close> run when \<open>bIncludeNames\<close> is
  set: the raw path for a path longer than \<open>MAX_PATH\<close>, else the canonicalized one, and
  the raw path again (\<open>lstrcpy\<close>) when \<open>PathCanonicalize\<close> fails.
\<close>

definition hash_name :: "extern \<Rightarrow> wstring \<Rightarrow> Hash \<Rightarrow> Hash" where
  "hash_name x szPath pHash =
     (if length szPath > MAX_PATH then Update pHash (tbytes szPath)
      else
        let g_szCanonalizedName =
              (case PathCanonicalize x szPath of None \<Rightarrow> szPath | Some c \<Rightarrow> c)
        in Update pHash (tbytes g_szCanonalizedName))"

definition HashFile ::
  "extern \<Rightarrow> wstring \<Rightarrow> DWORD + BYTE list \<Rightarrow> Hash \<Rightarrow> bool \<Rightarrow> wstring list \<Rightarrow> DWORD \<times> Hash" where
  "HashFile x szFilePath f pHash bIncludeNames excludeSpecList =
     (let pathLen = length szFilePath
      in if pathLen \<le> MAX_PATH \<and> excludeSpecList \<noteq> []
            \<and> IsExcludedName x szFilePath excludeSpecList
         then (0, pHash)
         else
           let pHash1 = (if bIncludeNames then hash_name x szFilePath pHash else pHash)
           in case f of
                Inr bytes \<Rightarrow> (0, fread_loop bytes pHash1)
              | Inl errno \<Rightarrow> (- 1, pHash1))"

subsection \<open>HashDirectory\<close>

text \<open>
  The enumeration loop: every entry is pushed but the directories named \<open>.\<close> and
  \<open>..\<close>. Each push constructs a \<open>CDirContent\<close> from \<open>szDirPath\<close>.
\<close>

fun FindFiles :: "wstring \<Rightarrow> (wstring \<times> fsnode) list \<Rightarrow> (CDirContent \<times> fsnode) list option" where
  "FindFiles szDirPath [] = Some []"
| "FindFiles szDirPath ((cFileName, node) # rest) =
     (if is_dir node \<and> (cFileName = wide ''.'' \<or> cFileName = wide ''..'')
      then FindFiles szDirPath rest
      else
        case CDirContent_ctor szDirPath cFileName (is_dir node) of
          None \<Rightarrow> None
        | Some c \<Rightarrow>
            (case FindFiles szDirPath rest of
               None \<Rightarrow> None
             | Some dirContent \<Rightarrow> Some ((c, node) # dirContent)))"

text \<open>
  \<open>std::list::sort(comp)\<close> is a stable sort: elements that \<open>comp\<close> does not order keep
  their relative order. It is modelled by stable insertion.
\<close>

fun sort_insert :: "('a \<Rightarrow> 'a \<Rightarrow> bool) \<Rightarrow> 'a \<Rightarrow> 'a list \<Rightarrow> 'a list" where
  "sort_insert lt a [] = [a]"
| "sort_insert lt a (b # bs) =
     (if lt b a then b # sort_insert lt a bs else a # b # bs)"

definition list_sort :: "('a \<Rightarrow> 'a \<Rightarrow> bool) \<Rightarrow> 'a list \<Rightarrow> 'a list" where
  "list_sort lt xs = foldr (sort_insert lt) xs []"

text \<open>
  The comparison of two list elements goes through \<open>operator LPCWSTR\<close>, that is, it
  compares their paths. Each list element is kept together with the node it was built
  for, which is what \<open>_tfopen\<close> or \<open>FindFirstFile\<close> finds under its path. The loop
  asks \<open>IsDir\<close>, which the enumeration set from the directory attribute, that is,
  from the kind of the node: the model looks at the node.
\<close>

definition compare_content :: "CDirContent \<times> fsnode \<Rightarrow> CDirContent \<times> fsnode \<Rightarrow> bool" where
  "compare_content a b = compare_nocase (m_szPath (fst a)) (m_szPath (fst b))"

text \<open>Termination: every recursive call is on nodes below the directory at hand.\<close>

definition weight :: "'a \<times> fsnode \<Rightarrow> nat" where
  "weight e = Suc (size (snd e))"

lemma weight_sort_insert:
  "sum_list (map weight (sort_insert lt a bs)) = weight a + sum_list (map weight bs)"
  by (induction bs) auto

lemma weight_list_sort: "sum_list (map weight (list_sort lt xs)) = sum_list (map weight xs)"
  by (induction xs) (auto simp: list_sort_def weight_sort_insert)

lemma weight_FindFiles:
  "FindFiles szDirPath entries = Some dirContent \<Longrightarrow>
     sum_list (map weight dirContent) \<le> sum_list (map weight entries)"
proof (induction entries arbitrary: dirContent)
  case Nil
  then show ?case by simp
next
  case (Cons e entries)
  obtain cFileName node where e: "e = (cFileName, node)" by (cases e)
  from Cons.prems Cons.IH show ?case
    by (auto simp: e weight_def split: if_splits option.splits)
qed

lemma weight_entries: "sum_list (map weight entries) \<le> size_list (size_prod (\<lambda>x. 0) size) entries"
  by (induction entries) (auto simp: weight_def)

text \<open>
  \<open>HashDirectory\<close> takes the directory as the enumeration delivers it: its entries
  and the final error code. \<open>HashDirContent\<close> is its loop over the sorted list, which
  stops at the first call that returns a code other than 0. \<open>None\<close> stands for the
  undefined behaviour of the constructor on an empty directory path.
\<close>

function HashDirectory ::
    "extern \<Rightarrow> wstring \<Rightarrow> (wstring \<times> fsnode) list \<Rightarrow> DWORD \<Rightarrow> Hash \<Rightarrow> bool \<Rightarrow> wstring list
      \<Rightarrow> (DWORD \<times> Hash) option"
  and HashDirContent ::
    "extern \<Rightarrow> (CDirContent \<times> fsnode) list \<Rightarrow> Hash \<Rightarrow> bool \<Rightarrow> wstring list
      \<Rightarrow> (DWORD \<times> Hash) option"
where
  "HashDirectory x szDirPath entries lastError pHash bIncludeNames excludeSpecList =
     (if length szDirPath \<le> MAX_PATH \<and> excludeSpecList \<noteq> []
         \<and> IsExcludedName x szDirPath excludeSpecList
      then Some (0, pHash)
      else
        let pHash1 = (if bIncludeNames then hash_name x szDirPath pHash else pHash)
        in if entries = [] then Some (lastError, pHash1)
           else
             case FindFiles szDirPath entries of
               None \<Rightarrow> None
             | Some dirContent \<Rightarrow>
                 if lastError \<noteq> ERROR_NO_MORE_FILES then Some (lastError, pHash1)
                 else HashDirContent x (list_sort compare_content dirContent) pHash1
                        bIncludeNames excludeSpecList)"
| "HashDirContent x [] pHash bIncludeNames excludeSpecList = Some (0, pHash)"
| "HashDirContent x ((c, FsDir entries lastError) # rest) pHash bIncludeNames excludeSpecList =
     (case HashDirectory x (GetPath c) entries lastError pHash bIncludeNames excludeSpecList of
        None \<Rightarrow> None
      | Some (dwError, pHash') \<Rightarrow>
          if dwError \<noteq> 0 then Some (dwError, pHash')
          else HashDirContent x rest pHash' bIncludeNames excludeSpecList)"
| "HashDirContent x ((c, FsFile f) # rest) pHash bIncludeNames excludeSpecList =
     (case HashFile x (GetPath c) f pHash bIncludeNames excludeSpecList of
        (dwError, pHash') \<Rightarrow>
          if dwError \<noteq> 0 then Some (dwError, pHash')
          else HashDirContent x rest pHash' bIncludeNames excludeSpecList)"
  by pat_completeness auto
termination
proof (relation "measure (\<lambda>s. case s of
          Inl (x, szDirPath, entries, r) \<Rightarrow> Suc (2 * sum_list (map weight entries))
        | Inr (x, dirContent, r) \<Rightarrow> 2 * sum_list (map weight dirContent))", goal_cases)
  case 1
  show ?case by simp
next
  case (2 x szDirPath entries lastError pHash bIncludeNames excludeSpecList pHash1 dirContent)
  then show ?case
    using weight_FindFiles [of szDirPath entries dirContent]
    by (simp add: weight_list_sort)
next
  case (3 x c entries lastError rest pHash bIncludeNames excludeSpecList)
  show ?case
    using weight_entries [of entries] by (simp add: weight_def)
next
  case 4
  then show ?case by (simp add: weight_def)
next
  case 5
  then show ?case by (simp add: weight_def)
qed

declare HashDirectory.simps [simp del]

section \<open>The command line\<close>

subsection \<open>Formatting\<close>

text \<open>\<open>%d\<close> of a value that is not negative, and \<open>%.2X\<close> of a byte.\<close>

function decimal :: "nat \<Rightarrow> wstring" where
  "decimal n = (if n < 10 then [of_nat (48 + n)] else decimal (n div 10) @ [of_nat (48 + n mod 10)])"
  by pat_completeness auto
termination
  by (relation "measure id") auto

declare decimal.simps [simp del]

definition hex_digit :: "nat \<Rightarrow> TCHAR" where
  "hex_digit n = (if n < 10 then of_nat (48 + n) else of_nat (55 + n))"

definition hex2 :: "BYTE \<Rightarrow> wstring" where
  "hex2 b = [hex_digit (unat b div 16), hex_digit (unat b mod 16)]"

subsection \<open>Options\<close>

text \<open>
  The variables that the argument loop of \<open>_tmain\<close> sets: the result file (by the
  name it was opened under), the two flags, the patterns and the hash object.
\<close>

record options =
  arg_outputFile :: "wstring option"
  arg_bDontWait :: bool
  arg_bIncludeNames :: bool
  arg_excludeSpecList :: "wstring list"
  arg_pHash :: "HashAlgo option"

definition no_options :: options where
  "no_options = \<lparr>arg_outputFile = None, arg_bDontWait = False, arg_bIncludeNames = False,
                  arg_excludeSpecList = [], arg_pHash = None\<rparr>"

text \<open>
  The loop over \<open>argv[2]\<close> onwards. \<open>Inl\<close> is an early \<open>return\<close> with its exit
  status; \<open>fopen_ok\<close> tells whether \<open>_tfopen\<close> of the result file succeeds.
\<close>

fun parse_args :: "(wstring \<Rightarrow> bool) \<Rightarrow> wstring list \<Rightarrow> options \<Rightarrow> int + options" where
  "parse_args fopen_ok [] args = Inr args"
| "parse_args fopen_ok (a # rest) args =
     (if a = wide ''-t'' then
        (case rest of
           [] \<Rightarrow> Inl 1
         | name # rest' \<Rightarrow>
             if \<not> fopen_ok name then Inl 1
             else parse_args fopen_ok rest' (args\<lparr>arg_outputFile := Some name\<rparr>))
      else if a = wide ''-nowait'' then parse_args fopen_ok rest (args\<lparr>arg_bDontWait := True\<rparr>)
      else if a = wide ''-hashnames'' then
        parse_args fopen_ok rest (args\<lparr>arg_bIncludeNames := True\<rparr>)
      else if a = wide ''-exclude'' then
        (case rest of
           [] \<Rightarrow> Inl 1
         | spec # rest' \<Rightarrow>
             parse_args fopen_ok rest'
               (args\<lparr>arg_excludeSpecList := arg_excludeSpecList args @ [spec]\<rparr>))
      else
        (case GetHash (Some a) of
           None \<Rightarrow> Inl 1
         | Some h \<Rightarrow> parse_args fopen_ok rest (args\<lparr>arg_pHash := Some h\<rparr>)))"

subsection \<open>The run\<close>

text \<open>
  What a run meets outside the tree: whether the result file opens for appending, and
  what the input path denotes (\<open>None\<close> where \<open>PathFileExists\<close> is false;
  \<open>PathIsDirectory\<close> holds of a directory node). What is observed of a run: its exit
  status, the digest \<open>Final\<close> delivered (if it was called), and the result line
  written to standard output and to the result file. The banner, the messages and the
  prompt are left out.
\<close>

record world =
  fopen_append :: "wstring \<Rightarrow> bool"
  path_node :: "wstring \<Rightarrow> fsnode option"

record run =
  status :: int
  pbDigest :: "BYTE list option"
  stdout_line :: "wstring option"
  file_line :: "wstring option"

definition quit :: "int \<Rightarrow> run" where
  "quit code = \<lparr>status = code, pbDigest = None, stdout_line = None, file_line = None\<rparr>"

text \<open>
  Lines 471 to 490: a directory is hashed under its path without a trailing separator,
  a file under the path as given. The test of the last character reads
  \<open>argv[1][pathLen - 1]\<close>, which for an empty path lies before the string.
\<close>

definition hash_root ::
  "extern \<Rightarrow> wstring \<Rightarrow> fsnode \<Rightarrow> Hash \<Rightarrow> bool \<Rightarrow> wstring list \<Rightarrow> (DWORD \<times> Hash) option" where
  "hash_root x argv1 node pHash bIncludeNames excludeSpecList =
     (case node of
        FsDir entries lastError \<Rightarrow>
          if argv1 = [] then None
          else HashDirectory x
                 (if last argv1 = 0x5C \<or> last argv1 = 0x2F then butlast argv1 else argv1)
                 entries lastError pHash bIncludeNames excludeSpecList
      | FsFile f \<Rightarrow> Some (HashFile x argv1 f pHash bIncludeNames excludeSpecList))"

text \<open>
  Lines 492 to 516. The loop prints the first \<open>GetHashSize\<close> bytes of the buffer that
  \<open>Final\<close> filled (OpenSSL writes exactly that many; were a digest shorter, the rest
  of the buffer would be uninitialised, which the model does not represent: it prints
  what \<open>Final\<close> delivered). The exit status is \<open>dwError\<close> read as an \<open>int\<close>.
\<close>

definition report :: "extern \<Rightarrow> wstring \<Rightarrow> options \<Rightarrow> DWORD \<Rightarrow> Hash \<Rightarrow> run" where
  "report x argv1 args dwError pHash =
     (if dwError = NO_ERROR then
        let digest_bytes = Final x pHash;
            size_text = decimal (GetHashSize (algo pHash));
            hex = concat (map hex2 (take (GetHashSize (algo pHash)) digest_bytes))
        in \<lparr>status = sint dwError,
            pbDigest = Some digest_bytes,
            stdout_line =
              Some (GetID (algo pHash) @ wide '' ('' @ size_text @ wide '' bytes) = '' @ hex
                    @ [0x0A]),
            file_line =
              (case arg_outputFile args of
                 None \<Rightarrow> None
               | Some name \<Rightarrow>
                   Some (GetID (algo pHash) @ wide '' hash of '' @ [0x22]
                         @ PathFindFileName x argv1 @ [0x22] @ wide '' ('' @ size_text
                         @ wide '' bytes) = '' @ hex @ [0x0A]))\<rparr>
      else quit (sint dwError))"

definition tmain :: "extern \<Rightarrow> world \<Rightarrow> wstring list \<Rightarrow> run option" where
  "tmain x w argv =
     (if length argv < 2 then Some (quit 1)
      else
        case parse_args (fopen_append w) (drop 2 argv) no_options of
          Inl code \<Rightarrow> Some (quit code)
        | Inr args \<Rightarrow>
            let pHash = Init (case arg_pHash args of None \<Rightarrow> Sha1 | Some h \<Rightarrow> h);
                length_of_arg = StringCchLength x (argv ! 1) MAX_PATH
            in if length_of_arg > MAX_PATH - 3 then Some (quit (- 1))
               else
                 case path_node w (argv ! 1) of
                   None \<Rightarrow> Some (quit (- 2))
                 | Some node \<Rightarrow>
                     (case hash_root x (argv ! 1) node pHash (arg_bIncludeNames args)
                             (arg_excludeSpecList args) of
                        None \<Rightarrow> None
                      | Some (dwError, pHash') \<Rightarrow>
                          Some (report x (argv ! 1) args dwError pHash')))"

section \<open>A sample of the libraries\<close>

text \<open>
  Concrete runs need concrete library functions. \<open>match_spec\<close> is what the
  documentation of \<open>PathMatchSpec\<close> says for one pattern without \<open>;\<close>: the whole
  string is matched, \<open>*\<close> stands for any run of characters, \<open>?\<close> for any single
  one, and letters match without regard to case. \<open>find_file_name\<close> is
  \<open>PathFindFileName\<close>: what follows the last separator that is followed by a
  character other than a slash. \<open>string_length\<close> is \<open>StringCchLength\<close> as strsafe.h
  implements it: the length of a string shorter than \<open>cchMax\<close>, and 0, with a failure
  code, for any other string. The sample canonicalizer leaves a path as it is (right
  for a path with no \<open>.\<close> or \<open>..\<close> segment), and the sample digest is a stand-in of
  the right length, not one of the five algorithms.
\<close>

fun match_spec :: "wstring \<Rightarrow> wstring \<Rightarrow> bool" where
  "match_spec [] [] = True"
| "match_spec (n # name) [] = False"
| "match_spec [] (m # pat) = (m = 0x2A \<and> match_spec [] pat)"
| "match_spec (n # name) (m # pat) =
     (if m = 0x2A then match_spec (n # name) pat \<or> match_spec name (m # pat)
      else (m = 0x3F \<or> towlower m = towlower n) \<and> match_spec name pat)"

fun file_name_from :: "wstring \<Rightarrow> wstring \<Rightarrow> wstring" where
  "file_name_from last_slash [] = last_slash"
| "file_name_from last_slash (c # path) =
     file_name_from
       (if (c = 0x5C \<or> c = 0x2F \<or> c = 0x3A) \<and> path \<noteq> []
           \<and> hd path \<noteq> 0x5C \<and> hd path \<noteq> 0x2F
        then path else last_slash) path"

definition find_file_name :: "wstring \<Rightarrow> wstring" where
  "find_file_name path = file_name_from path path"

definition sample_digest :: "HashAlgo \<Rightarrow> BYTE list \<Rightarrow> BYTE list" where
  "sample_digest a bytes = take (GetHashSize a) (bytes @ replicate (GetHashSize a) 0)"

definition string_length :: "wstring \<Rightarrow> nat \<Rightarrow> nat" where
  "string_length psz cchMax = (if length psz < cchMax then length psz else 0)"

definition sample :: extern where
  "sample = \<lparr>PathMatchSpec = match_spec, PathCanonicalize = Some,
              PathFindFileName = find_file_name, StringCchLength = string_length,
              digest = sample_digest\<rparr>"

text \<open>A world for sample runs: a file that does not open, a directory that does not
  enumerate, an empty file, and nothing else.\<close>

definition sample_world :: world where
  "sample_world =
     \<lparr>fopen_append = \<lambda>name. True,
      path_node = \<lambda>p.
        if p = wide ''f'' then Some (FsFile (Inl 5))
        else if p = wide ''d'' then Some (FsDir [] 3)
        else if p = wide ''e'' then Some (FsFile (Inr []))
        else None\<rparr>"

section \<open>Notions for the statements\<close>

text \<open>
  None of what follows is code of the program: these are the notions in which the
  theorems speak about it.
\<close>

text \<open>
  Two names for what both functions do first: \<open>skipped\<close> is the guard that makes
  them return at once, \<open>with_name\<close> the hash object after the optional folding of the
  path.
\<close>

definition skipped :: "extern \<Rightarrow> wstring \<Rightarrow> wstring list \<Rightarrow> bool" where
  "skipped x szPath excludeSpecList =
     (length szPath \<le> MAX_PATH \<and> excludeSpecList \<noteq> []
      \<and> IsExcludedName x szPath excludeSpecList)"

definition with_name :: "extern \<Rightarrow> wstring \<Rightarrow> bool \<Rightarrow> Hash \<Rightarrow> Hash" where
  "with_name x szPath bIncludeNames pHash =
     (if bIncludeNames then hash_name x szPath pHash else pHash)"

text \<open>
  The enumeration seen from outside: the entries that are pushed, the path that the
  constructor builds in front of a child's name, the list element built for an entry,
  and the key under which the sort orders it.
\<close>

definition dir_prefix :: "wstring \<Rightarrow> wstring" where
  "dir_prefix szPath =
     (let p1 = (if last szPath = 0x2F then butlast szPath @ [0x5C] else szPath)
      in if last szPath \<noteq> 0x5C then p1 @ [0x5C] else p1)"

definition pushed :: "wstring \<times> fsnode \<Rightarrow> bool" where
  "pushed e = (\<not> (is_dir (snd e) \<and> (fst e = wide ''.'' \<or> fst e = wide ''..'')))"

definition content_of :: "wstring \<Rightarrow> wstring \<times> fsnode \<Rightarrow> CDirContent \<times> fsnode" where
  "content_of szDirPath e =
     (\<lparr>m_szPath = dir_prefix szDirPath @ fst e, m_bIsDir = is_dir (snd e)\<rparr>, snd e)"

definition lower_path :: "CDirContent \<times> fsnode \<Rightarrow> wstring" where
  "lower_path e = map towlower (m_szPath (fst e))"

text \<open>The body of the loop of \<open>HashDirectory\<close>: one element is visited.\<close>

definition visit ::
  "extern \<Rightarrow> CDirContent \<times> fsnode \<Rightarrow> Hash \<Rightarrow> bool \<Rightarrow> wstring list \<Rightarrow> (DWORD \<times> Hash) option" where
  "visit x e pHash bIncludeNames excludeSpecList =
     (case snd e of
        FsDir entries lastError \<Rightarrow>
          HashDirectory x (GetPath (fst e)) entries lastError pHash bIncludeNames excludeSpecList
      | FsFile f \<Rightarrow> Some (HashFile x (GetPath (fst e)) f pHash bIncludeNames excludeSpecList))"

text \<open>The path under which \<open>_tmain\<close> hashes the root.\<close>

definition root_path :: "wstring \<Rightarrow> fsnode \<Rightarrow> wstring" where
  "root_path argv1 node =
     (if is_dir node \<and> (last argv1 = 0x5C \<or> last argv1 = 0x2F) then butlast argv1 else argv1)"

text \<open>
  \<open>absent Q szDirPath entries entries'\<close>: the directory tree \<open>entries'\<close> is the tree
  \<open>entries\<close> of the directory \<open>szDirPath\<close> without one entry, at any depth, whose list
  element satisfies \<open>Q\<close>. What is left of the entry's directory still enumerates
  something: on Windows every directory but the root of an empty volume reports at least
  \<open>.\<close> and \<open>..\<close>.
\<close>

inductive absent ::
  "(CDirContent \<times> fsnode \<Rightarrow> bool) \<Rightarrow> wstring \<Rightarrow> (wstring \<times> fsnode) list
     \<Rightarrow> (wstring \<times> fsnode) list \<Rightarrow> bool"
  for Q :: "CDirContent \<times> fsnode \<Rightarrow> bool"
where
  here: "Q (content_of szDirPath e) \<Longrightarrow> before @ after \<noteq> [] \<Longrightarrow>
           absent Q szDirPath (before @ e # after) (before @ after)"
| below: "absent Q (dir_prefix szDirPath @ cFileName) entries entries' \<Longrightarrow>
           absent Q szDirPath (before @ (cFileName, FsDir entries lastError) # after)
                              (before @ (cFileName, FsDir entries' lastError) # after)"

text \<open>
  \<open>aborts x bIncludeNames excludeSpecList e pHash dwError pHash'\<close>: visiting the list
  element \<open>e\<close> from the hash object \<open>pHash\<close> meets a first error. Either \<open>e\<close> is a
  file that does not open, or a directory whose enumeration fails (at \<open>FindFirstFile\<close>,
  or later with a code other than \<open>ERROR_NO_MORE_FILES\<close>; the system reports a
  non-zero code), or a directory in whose sorted list the elements \<open>before\<close> are
  visited without error and the next element meets a first error. \<open>dwError\<close> is the
  code of that error and \<open>pHash'\<close> the hash object at that moment.
\<close>

inductive aborts ::
  "extern \<Rightarrow> bool \<Rightarrow> wstring list \<Rightarrow> CDirContent \<times> fsnode \<Rightarrow> Hash \<Rightarrow> DWORD \<Rightarrow> Hash \<Rightarrow> bool"
  for x :: extern and bIncludeNames :: bool and excludeSpecList :: "wstring list"
where
  file_open:
    "\<not> skipped x (GetPath c) excludeSpecList \<Longrightarrow>
       aborts x bIncludeNames excludeSpecList (c, FsFile (Inl errno)) pHash (- 1)
         (with_name x (GetPath c) bIncludeNames pHash)"
| enumeration:
    "\<not> skipped x (GetPath c) excludeSpecList \<Longrightarrow> GetPath c \<noteq> [] \<Longrightarrow>
     entries = [] \<or> lastError \<noteq> ERROR_NO_MORE_FILES \<Longrightarrow> lastError \<noteq> 0 \<Longrightarrow>
       aborts x bIncludeNames excludeSpecList (c, FsDir entries lastError) pHash lastError
         (with_name x (GetPath c) bIncludeNames pHash)"
| child:
    "\<not> skipped x (GetPath c) excludeSpecList \<Longrightarrow> GetPath c \<noteq> [] \<Longrightarrow> entries \<noteq> [] \<Longrightarrow>
     list_sort compare_content (map (content_of (GetPath c)) (filter pushed entries))
       = before @ e # after \<Longrightarrow>
     HashDirContent x before (with_name x (GetPath c) bIncludeNames pHash)
       bIncludeNames excludeSpecList = Some (0, pHash1) \<Longrightarrow>
     aborts x bIncludeNames excludeSpecList e pHash1 dwError pHash2 \<Longrightarrow>
       aborts x bIncludeNames excludeSpecList (c, FsDir entries ERROR_NO_MORE_FILES) pHash
         dwError pHash2"

text \<open>
  The reading of the specification: the bytes of a tree are the contents of its files,
  concatenated in depth-first order, the children of each directory taken in
  case-insensitive order of their names. A tree is readable when every file in it opens
  and every directory in it enumerates to the end.
\<close>

fun tree_bytes :: "fsnode \<Rightarrow> BYTE list" where
  "tree_bytes (FsFile f) = (case f of Inl errno \<Rightarrow> [] | Inr bytes \<Rightarrow> bytes)"
| "tree_bytes (FsDir entries lastError) =
     concat (map snd
       (sort_key (\<lambda>child. map towlower (fst child))
         (map (\<lambda>e. (fst e, tree_bytes (snd e))) (filter pushed entries))))"

fun readable :: "fsnode \<Rightarrow> bool" where
  "readable (FsFile f) = (case f of Inl errno \<Rightarrow> False | Inr bytes \<Rightarrow> True)"
| "readable (FsDir entries lastError) =
     (entries \<noteq> [] \<and> lastError = ERROR_NO_MORE_FILES
      \<and> list_all (\<lambda>e. readable (snd e)) (filter pushed entries))"

definition ascii :: "string \<Rightarrow> BYTE list" where
  "ascii s = map (\<lambda>c. of_nat (of_char c)) s"

section \<open>The exclusion decision\<close>

lemma IsExcludedName_iff:
  "IsExcludedName x szName excludeSpecList
     = (\<exists>spec \<in> set excludeSpecList. PathMatchSpec x szName spec)"
  by (induction excludeSpecList) auto

text \<open>
  C1 (as amended). For an entry whose path is no longer than \<open>MAX_PATH\<close> and a non-empty
  pattern list, the decision is made on the full path string that \<open>HashFile\<close> or
  \<open>HashDirectory\<close> receives: the entry is skipped iff some pattern matches that
  string. A skipped file is not opened (so a file that cannot be opened yields 0 exactly
  when a pattern matches its path) and a skipped directory is not enumerated; an entry
  that no pattern matches is processed: the file as with no pattern list at all, the
  directory by enumerating it.
\<close>

theorem exclusion_decided_on_full_path:
  assumes "length szPath \<le> MAX_PATH" and "excludeSpecList \<noteq> []"
  shows "((HashFile x szPath (Inl errno) pHash bIncludeNames excludeSpecList = (0, pHash))
            = (\<exists>spec \<in> set excludeSpecList. PathMatchSpec x szPath spec))
       \<and> ((\<exists>spec \<in> set excludeSpecList. PathMatchSpec x szPath spec) \<longrightarrow>
            HashFile x szPath f pHash bIncludeNames excludeSpecList = (0, pHash)
            \<and> HashDirectory x szPath entries lastError pHash bIncludeNames excludeSpecList
                = Some (0, pHash))
       \<and> (\<not> (\<exists>spec \<in> set excludeSpecList. PathMatchSpec x szPath spec) \<longrightarrow>
            HashFile x szPath f pHash bIncludeNames excludeSpecList
              = HashFile x szPath f pHash bIncludeNames []
            \<and> HashDirectory x szPath [] lastError pHash bIncludeNames excludeSpecList
                = Some (lastError, if bIncludeNames then hash_name x szPath pHash else pHash))"
  using assms
  by (simp add: HashFile_def HashDirectory.simps IsExcludedName_iff)

theorem exclusion_decided_on_full_path_witness:
  "length (wide ''/t'' @ [0x5C] @ wide ''notes.tmp'') \<le> MAX_PATH
   \<and> [wide ''*.tmp''] \<noteq> []
   \<and> HashFile sample (wide ''/t'' @ [0x5C] @ wide ''notes.tmp'') (Inr [1, 2, 3])
        (Init Sha1) False [wide ''*.tmp''] = (0, Init Sha1)
   \<and> HashFile sample (wide ''/t'' @ [0x5C] @ wide ''notes.txt'') (Inl 5)
        (Init Sha1) False [wide ''*.tmp''] \<noteq> (0, Init Sha1)"
proof -
  let ?p = "wide ''/t'' @ [0x5C] @ wide ''notes.tmp''"
  let ?q = "wide ''/t'' @ [0x5C] @ wide ''notes.txt''"
  have p: "length ?p \<le> MAX_PATH" and q: "length ?q \<le> MAX_PATH"
    by (simp_all add: wide_def MAX_PATH_def)
  have ne: "[wide ''*.tmp''] \<noteq> []" by simp
  have m: "\<exists>spec \<in> set [wide ''*.tmp'']. PathMatchSpec sample ?p spec"
    by code_simp
  have n: "\<not> (\<exists>spec \<in> set [wide ''*.tmp'']. PathMatchSpec sample ?q spec)"
    by code_simp
  from exclusion_decided_on_full_path [OF p ne, where x = sample and pHash = "Init Sha1"
      and bIncludeNames = False and f = "Inr [1, 2, 3]"] m
  have 1: "HashFile sample ?p (Inr [1, 2, 3]) (Init Sha1) False [wide ''*.tmp'']
             = (0, Init Sha1)"
    by blast
  from exclusion_decided_on_full_path [OF q ne, where x = sample and pHash = "Init Sha1"
      and bIncludeNames = False and errno = 5] n
  have 2: "HashFile sample ?q (Inl 5) (Init Sha1) False [wide ''*.tmp''] \<noteq> (0, Init Sha1)"
    by blast
  from p ne 1 2 show ?thesis by blast
qed

text \<open>
  C1 as stated fails. In the tree of the specification, the directory \<open>sub\<close> under the
  root \<open>/t\<close> is visited under the path made of \<open>/t\<close>, a backslash and \<open>sub\<close>. Its base name \<open>sub\<close> matches the
  pattern \<open>sub\<close>, its full path does not, and the directory is not skipped: its file is
  hashed.
\<close>

theorem exclusion_by_base_name_counterexample:
  "length (wide ''/t'' @ [0x5C] @ wide ''sub'') \<le> MAX_PATH
   \<and> PathMatchSpec sample
         (PathFindFileName sample (wide ''/t'' @ [0x5C] @ wide ''sub'')) (wide ''sub'')
   \<and> HashDirectory sample (wide ''/t'' @ [0x5C] @ wide ''sub'')
         [(wide ''.'', FsDir [] 0), (wide ''..'', FsDir [] 0),
          (wide ''b.txt'', FsFile (Inr [0x77, 0x6F, 0x72, 0x6C, 0x64]))]
         ERROR_NO_MORE_FILES (Init Sha256) False [wide ''sub'']
       = Some (0, \<lparr>algo = Sha256, m_ctx = [[0x77, 0x6F, 0x72, 0x6C, 0x64]]\<rparr>)"
  by code_simp

section \<open>The order of the visit\<close>

text \<open>
  The order that \<open>compare_nocase\<close> imposes is the lexicographic order of the lowered
  paths, and the stable insertion with it is the library's stable sort by that key.
\<close>

lemma wcsicmp_less_iff: "(wcsicmp a b < 0) = (map towlower a < map towlower b)"
  by (induction a b rule: wcsicmp.induct) auto

lemma compare_content_iff: "compare_content a b = (lower_path a < lower_path b)"
  by (simp add: compare_content_def compare_nocase_def lower_path_def wcsicmp_less_iff)

lemma sort_insert_insort_key:
  "sort_insert (\<lambda>a b. key a < key b) a bs = insort_key key a bs"
  by (induction bs) (auto simp: not_less)

lemma list_sort_sort_key: "list_sort (\<lambda>a b. key a < key b) xs = sort_key key xs"
  by (induction xs) (simp_all add: list_sort_def sort_insert_insort_key)

lemma list_sort_compare_content: "list_sort compare_content xs = sort_key lower_path xs"
proof -
  have eq: "compare_content = (\<lambda>a b. lower_path a < lower_path b)"
    by (intro ext) (rule compare_content_iff)
  show ?thesis unfolding eq by (rule list_sort_sort_key)
qed

lemma compare_nocase_append: "compare_nocase (p @ a) (p @ b) = compare_nocase a b"
  by (induction p) (simp_all add: compare_nocase_def)

lemma CDirContent_ctor_Some:
  assumes "szPath \<noteq> []"
  shows "\<exists>p. p \<noteq> [] \<and> (\<forall>szName bIsDir.
           CDirContent_ctor szPath szName bIsDir
             = Some \<lparr>m_szPath = p @ szName, m_bIsDir = bIsDir\<rparr>)"
proof -
  let ?p1 = "if last szPath = 0x2F then butlast szPath @ [0x5C] else szPath"
  let ?p2 = "if last szPath \<noteq> 0x5C then ?p1 @ [0x5C] else ?p1"
  have "?p2 \<noteq> []" using assms by simp
  moreover have "CDirContent_ctor szPath szName bIsDir
      = Some \<lparr>m_szPath = ?p2 @ szName, m_bIsDir = bIsDir\<rparr>" for szName bIsDir
    using assms by (simp add: CDirContent_ctor_def Let_def)
  ultimately show ?thesis by blast
qed

lemma dot_names:
  "wide ''a.txt'' \<noteq> wide ''.''" "wide ''a.txt'' \<noteq> wide ''..''"
  "wide ''B.txt'' \<noteq> wide ''.''" "wide ''B.txt'' \<noteq> wide ''..''"
  by (simp_all add: wide_def)

lemma a_before_B:
  "compare_nocase (wide ''a.txt'') (wide ''B.txt'')"
  "\<not> compare_nocase (wide ''B.txt'') (wide ''a.txt'')"
  by (simp_all add: wide_def compare_nocase_def towlower_def)

lemma HashFile_plain:
  "HashFile x szFilePath (Inr bytes) pHash False [] = (0, fread_loop bytes pHash)"
  by (simp add: HashFile_def)

lemma two_files_in_order:
  assumes "szDirPath \<noteq> []"
  shows "HashDirectory x szDirPath
           [(wide ''B.txt'', FsFile (Inr bytesB)), (wide ''a.txt'', FsFile (Inr bytesA))]
           ERROR_NO_MORE_FILES pHash False []
         = Some (0, fread_loop bytesB (fread_loop bytesA pHash))"
    and "HashDirectory x szDirPath
           [(wide ''a.txt'', FsFile (Inr bytesA)), (wide ''B.txt'', FsFile (Inr bytesB))]
           ERROR_NO_MORE_FILES pHash False []
         = Some (0, fread_loop bytesB (fread_loop bytesA pHash))"
proof -
  from CDirContent_ctor_Some [OF assms] obtain p where
    c: "\<And>szName bIsDir.
          CDirContent_ctor szDirPath szName bIsDir = Some \<lparr>m_szPath = p @ szName, m_bIsDir = bIsDir\<rparr>"
    by blast
  show "HashDirectory x szDirPath
           [(wide ''B.txt'', FsFile (Inr bytesB)), (wide ''a.txt'', FsFile (Inr bytesA))]
           ERROR_NO_MORE_FILES pHash False []
         = Some (0, fread_loop bytesB (fread_loop bytesA pHash))"
    by (simp add: HashDirectory.simps c dot_names list_sort_def compare_content_def
        compare_nocase_append a_before_B HashFile_plain GetPath_def)
  show "HashDirectory x szDirPath
           [(wide ''a.txt'', FsFile (Inr bytesA)), (wide ''B.txt'', FsFile (Inr bytesB))]
           ERROR_NO_MORE_FILES pHash False []
         = Some (0, fread_loop bytesB (fread_loop bytesA pHash))"
    by (simp add: HashDirectory.simps c dot_names list_sort_def compare_content_def
        compare_nocase_append a_before_B HashFile_plain GetPath_def)
qed

text \<open>
  C2. The list that the loop of \<open>HashDirectory\<close> walks is the enumerated children
  (without \<open>.\<close> and \<open>..\<close>) sorted by full path in case-insensitive lexicographic order:
  it is a rearrangement of the enumerated children, no later element compares below an
  earlier one, and its lowered paths ascend. An excluded child is dropped when the loop
  reaches it, so the children that remain are visited in that order. In a directory with
  exactly \<open>B.txt\<close> and \<open>a.txt\<close>, the bytes of \<open>a.txt\<close> are hashed before those of
  \<open>B.txt\<close> in whichever order the file system enumerates the two.
\<close>

theorem children_visited_in_nocase_order:
  assumes "FindFiles szDirPath entries = Some dirContent" and "szDirPath \<noteq> []"
  shows "mset (list_sort compare_content dirContent) = mset dirContent
       \<and> sorted (map lower_path (list_sort compare_content dirContent))
       \<and> (\<forall>i j. i < j \<and> j < length dirContent \<longrightarrow>
             \<not> compare_nocase (GetPath (fst (list_sort compare_content dirContent ! j)))
                               (GetPath (fst (list_sort compare_content dirContent ! i))))
       \<and> (entries \<noteq> []
            \<and> \<not> (length szDirPath \<le> MAX_PATH \<and> excludeSpecList \<noteq> []
                   \<and> IsExcludedName x szDirPath excludeSpecList) \<longrightarrow>
             HashDirectory x szDirPath entries ERROR_NO_MORE_FILES pHash bIncludeNames
                 excludeSpecList
               = HashDirContent x (list_sort compare_content dirContent)
                   (if bIncludeNames then hash_name x szDirPath pHash else pHash)
                   bIncludeNames excludeSpecList)
       \<and> HashDirectory x szDirPath
           [(wide ''B.txt'', FsFile (Inr bytesB)), (wide ''a.txt'', FsFile (Inr bytesA))]
           ERROR_NO_MORE_FILES pHash False []
         = Some (0, fread_loop bytesB (fread_loop bytesA pHash))
       \<and> HashDirectory x szDirPath
           [(wide ''a.txt'', FsFile (Inr bytesA)), (wide ''B.txt'', FsFile (Inr bytesB))]
           ERROR_NO_MORE_FILES pHash False []
         = Some (0, fread_loop bytesB (fread_loop bytesA pHash))"
proof -
  let ?v = "list_sort compare_content dirContent"
  have v: "?v = sort_key lower_path dirContent"
    by (rule list_sort_compare_content)
  have 1: "mset ?v = mset dirContent" by (simp add: v)
  have 2: "sorted (map lower_path ?v)" by (simp add: v)
  have 3: "\<not> compare_nocase (GetPath (fst (?v ! j))) (GetPath (fst (?v ! i)))"
    if "i < j" "j < length dirContent" for i j
  proof -
    from that have "j < length (map lower_path ?v)" by (simp add: v)
    with 2 that have "map lower_path ?v ! i \<le> map lower_path ?v ! j"
      by (simp add: sorted_iff_nth_mono del: length_map)
    with that have "lower_path (?v ! i) \<le> lower_path (?v ! j)" by (simp add: v)
    then have "\<not> compare_content (?v ! j) (?v ! i)"
      by (simp add: compare_content_iff not_less)
    then show ?thesis by (simp add: compare_content_def GetPath_def)
  qed
  have 4: "HashDirectory x szDirPath entries ERROR_NO_MORE_FILES pHash bIncludeNames
               excludeSpecList
             = HashDirContent x ?v
                 (if bIncludeNames then hash_name x szDirPath pHash else pHash)
                 bIncludeNames excludeSpecList"
    if "entries \<noteq> []"
      and "\<not> (length szDirPath \<le> MAX_PATH \<and> excludeSpecList \<noteq> []
             \<and> IsExcludedName x szDirPath excludeSpecList)"
    using that assms(1) by (auto simp: HashDirectory.simps)
  from 1 2 3 4 two_files_in_order [OF assms(2)] show ?thesis by blast
qed

theorem children_visited_in_nocase_order_witness:
  "FindFiles (wide ''/t'')
     [(wide ''.'', FsDir [] 0), (wide ''B.txt'', FsFile (Inr [0x42])),
      (wide ''a.txt'', FsFile (Inr [0x61]))]
   = Some [(\<lparr>m_szPath = wide ''/t'' @ [0x5C] @ wide ''B.txt'', m_bIsDir = False\<rparr>,
            FsFile (Inr [0x42])),
           (\<lparr>m_szPath = wide ''/t'' @ [0x5C] @ wide ''a.txt'', m_bIsDir = False\<rparr>,
            FsFile (Inr [0x61]))]
   \<and> wide ''/t'' \<noteq> []
   \<and> HashDirectory sample (wide ''/t'')
        [(wide ''B.txt'', FsFile (Inr [0x42])), (wide ''a.txt'', FsFile (Inr [0x61]))]
        ERROR_NO_MORE_FILES (Init Sha1) False []
      = Some (0, \<lparr>algo = Sha1, m_ctx = [[0x61], [0x42]]\<rparr>)"
proof -
  let ?e = "[(wide ''.'', FsDir [] 0), (wide ''B.txt'', FsFile (Inr [0x42])),
      (wide ''a.txt'', FsFile (Inr [0x61]))]"
  let ?d = "[(\<lparr>m_szPath = wide ''/t'' @ [0x5C] @ wide ''B.txt'', m_bIsDir = False\<rparr>,
            FsFile (Inr [0x42])),
           (\<lparr>m_szPath = wide ''/t'' @ [0x5C] @ wide ''a.txt'', m_bIsDir = False\<rparr>,
            FsFile (Inr [0x61]))]"
  have f: "FindFiles (wide ''/t'') ?e = Some ?d" by code_simp
  have n: "wide ''/t'' \<noteq> []" by (simp add: wide_def)
  have r: "fread_loop [0x42] (fread_loop [0x61] (Init Sha1))
             = \<lparr>algo = Sha1, m_ctx = [[0x61], [0x42]]\<rparr>"
    by code_simp
  from children_visited_in_nocase_order [OF f n, where x = sample and pHash = "Init Sha1"
      and bytesB = "[0x42]" and bytesA = "[0x61]"]
  have "HashDirectory sample (wide ''/t'')
        [(wide ''B.txt'', FsFile (Inr [0x42])), (wide ''a.txt'', FsFile (Inr [0x61]))]
        ERROR_NO_MORE_FILES (Init Sha1) False []
      = Some (0, fread_loop [0x42] (fread_loop [0x61] (Init Sha1)))"
    by blast
  with f n r show ?thesis by simp
qed

section \<open>What a visit does to the hash object\<close>

lemma fread_loop_Nil: "fread_loop [] pHash = pHash"
  by (simp add: fread_loop.simps)

lemma fread_loop_grows:
  "algo (fread_loop f pHash) = algo pHash
   \<and> (\<exists>ys. m_ctx (fread_loop f pHash) = m_ctx pHash @ ys \<and> concat ys = f)"
proof (induction f pHash rule: fread_loop.induct)
  case (1 f pHash)
  show ?case
  proof (cases "f = []")
    case True
    then show ?thesis by (simp add: fread_loop_Nil)
  next
    case False
    let ?len = "min 4096 (length f)"
    from False have len: "?len \<noteq> 0" by simp
    from "1.IH" [OF refl len]
    obtain ys where a: "algo (fread_loop (drop ?len f) (Update pHash (take ?len f))) = algo pHash"
      and m: "m_ctx (fread_loop (drop ?len f) (Update pHash (take ?len f)))
                = m_ctx pHash @ take ?len f # ys"
      and c: "concat ys = drop ?len f"
      by (auto simp: Update_def)
    have eq: "fread_loop f pHash = fread_loop (drop ?len f) (Update pHash (take ?len f))"
      using len by (subst fread_loop.simps) (simp add: Let_def)
    have "concat (take ?len f # ys) = f" using c by simp
    with a m eq show ?thesis by metis
  qed
qed

lemma algo_hash_name: "algo (hash_name x szPath pHash) = algo pHash"
  by (simp add: hash_name_def Update_def Let_def)

lemma HashFile_eq:
  "HashFile x szFilePath f pHash bIncludeNames excludeSpecList =
     (if skipped x szFilePath excludeSpecList then (0, pHash)
      else case f of
             Inr bytes \<Rightarrow> (0, fread_loop bytes (with_name x szFilePath bIncludeNames pHash))
           | Inl errno \<Rightarrow> (- 1, with_name x szFilePath bIncludeNames pHash))"
  by (cases bIncludeNames; cases f) (simp_all add: HashFile_def skipped_def with_name_def Let_def)

lemma HashDirectory_eq:
  "HashDirectory x szDirPath entries lastError pHash bIncludeNames excludeSpecList =
     (if skipped x szDirPath excludeSpecList then Some (0, pHash)
      else if entries = []
      then Some (lastError, with_name x szDirPath bIncludeNames pHash)
      else case FindFiles szDirPath entries of
             None \<Rightarrow> None
           | Some dirContent \<Rightarrow>
               if lastError \<noteq> ERROR_NO_MORE_FILES
               then Some (lastError, with_name x szDirPath bIncludeNames pHash)
               else HashDirContent x (list_sort compare_content dirContent)
                      (with_name x szDirPath bIncludeNames pHash)
                      bIncludeNames excludeSpecList)"
  by (cases bIncludeNames; cases "FindFiles szDirPath entries")
     (simp_all add: HashDirectory.simps skipped_def with_name_def Let_def)

lemma with_name_grows:
  "algo (with_name x szPath bIncludeNames pHash) = algo pHash
   \<and> (\<exists>ys. m_ctx (with_name x szPath bIncludeNames pHash) = m_ctx pHash @ ys)"
  by (simp add: with_name_def hash_name_def Update_def Let_def)

lemma HashFile_grows:
  assumes "HashFile x szFilePath f pHash bIncludeNames excludeSpecList = (dwError, pHash')"
  shows "algo pHash' = algo pHash \<and> (\<exists>ys. m_ctx pHash' = m_ctx pHash @ ys)"
proof -
  let ?h1 = "with_name x szFilePath bIncludeNames pHash"
  note h = with_name_grows [of x szFilePath bIncludeNames pHash]
  show ?thesis
  proof (cases "skipped x szFilePath excludeSpecList")
    case True
    with assms show ?thesis by (simp add: HashFile_eq)
  next
    case False
    show ?thesis
    proof (cases f)
      case (Inl errno)
      with assms False h show ?thesis by (simp add: HashFile_eq)
    next
      case (Inr bytes)
      with assms False have "pHash' = fread_loop bytes ?h1" by (simp add: HashFile_eq)
      with fread_loop_grows [of bytes ?h1] h show ?thesis by (metis append.assoc)
    qed
  qed
qed

lemma HashDirectory_grows:
  "HashDirectory x szDirPath entries lastError pHash bIncludeNames excludeSpecList
     = Some (dwError, pHash')
   \<Longrightarrow> algo pHash' = algo pHash \<and> (\<exists>ys. m_ctx pHash' = m_ctx pHash @ ys)"
  and HashDirContent_grows:
  "HashDirContent x dirContent pHash bIncludeNames excludeSpecList = Some (dwError, pHash')
   \<Longrightarrow> algo pHash' = algo pHash \<and> (\<exists>ys. m_ctx pHash' = m_ctx pHash @ ys)"
proof (induction x szDirPath entries lastError pHash bIncludeNames excludeSpecList
         and x dirContent pHash bIncludeNames excludeSpecList
       arbitrary: dwError pHash' and dwError pHash'
       rule: HashDirectory_HashDirContent.induct)
  case (1 x szDirPath entries lastError pHash bIncludeNames excludeSpecList)
  let ?h1 = "with_name x szDirPath bIncludeNames pHash"
  note h = with_name_grows [of x szDirPath bIncludeNames pHash]
  note eq = HashDirectory_eq [of x szDirPath entries lastError pHash bIncludeNames excludeSpecList]
  show ?case
  proof (cases "skipped x szDirPath excludeSpecList")
    case True
    with "1.prems" eq show ?thesis by simp
  next
    case excl: False
    show ?thesis
    proof (cases "entries = []")
      case True
      with "1.prems" eq excl h show ?thesis by simp
    next
      case ne: False
      show ?thesis
      proof (cases "FindFiles szDirPath entries")
        case None
        with "1.prems" eq excl ne show ?thesis by simp
      next
        case (Some dirContent)
        show ?thesis
        proof (cases "lastError \<noteq> ERROR_NO_MORE_FILES")
          case True
          with "1.prems" eq excl ne Some h show ?thesis by simp
        next
          case False
          with "1.prems" eq excl ne Some
          have r: "HashDirContent x (list_sort compare_content dirContent) ?h1
                     bIncludeNames excludeSpecList = Some (dwError, pHash')"
            by simp
          have "algo pHash' = algo ?h1 \<and> (\<exists>ys. m_ctx pHash' = m_ctx ?h1 @ ys)"
            using "1.IH" [OF _ _ ne Some False r] excl
            by (simp add: skipped_def with_name_def)
          with h show ?thesis by (metis append.assoc)
        qed
      qed
    qed
  qed
next
  case (2 x pHash bIncludeNames excludeSpecList)
  then show ?case by simp
next
  case (3 x c entries lastError rest pHash bIncludeNames excludeSpecList)
  from "3.prems" obtain e1 h1 where
    d: "HashDirectory x (GetPath c) entries lastError pHash bIncludeNames excludeSpecList
          = Some (e1, h1)"
    by (auto split: option.splits)
  from "3.IH"(1) [OF d]
  have g1: "algo h1 = algo pHash \<and> (\<exists>ys. m_ctx h1 = m_ctx pHash @ ys)" .
  show ?case
  proof (cases "e1 \<noteq> 0")
    case True
    with "3.prems" d g1 show ?thesis by simp
  next
    case False
    with "3.prems" d
    have r: "HashDirContent x rest h1 bIncludeNames excludeSpecList = Some (dwError, pHash')"
      by simp
    from "3.IH"(2) [OF d refl False r] g1 show ?thesis by (metis append.assoc)
  qed
next
  case (4 x c f rest pHash bIncludeNames excludeSpecList)
  obtain e1 h1 where
    d: "HashFile x (GetPath c) f pHash bIncludeNames excludeSpecList = (e1, h1)"
    by (cases "HashFile x (GetPath c) f pHash bIncludeNames excludeSpecList")
  from HashFile_grows [OF d]
  have g1: "algo h1 = algo pHash \<and> (\<exists>ys. m_ctx h1 = m_ctx pHash @ ys)" .
  show ?case
  proof (cases "e1 \<noteq> 0")
    case True
    with "4.prems" d g1 show ?thesis by simp
  next
    case False
    with "4.prems" d
    have r: "HashDirContent x rest h1 bIncludeNames excludeSpecList = Some (dwError, pHash')"
      by simp
    from "4.IH" [OF d [symmetric] False r] g1 show ?thesis by (metis append.assoc)
  qed
qed
subsection \<open>What the enumeration pushes\<close>

text \<open>
  For a non-empty directory path the constructor always succeeds, and every child's path
  is the directory's path, closed by one backslash, followed by the child's name.
\<close>

lemma dir_prefix_nonempty: "szPath \<noteq> [] \<Longrightarrow> dir_prefix szPath \<noteq> []"
  by (simp add: dir_prefix_def Let_def)

lemma CDirContent_ctor_prefix:
  "szPath \<noteq> [] \<Longrightarrow>
     CDirContent_ctor szPath szName bIsDir
       = Some \<lparr>m_szPath = dir_prefix szPath @ szName, m_bIsDir = bIsDir\<rparr>"
  by (simp add: CDirContent_ctor_def dir_prefix_def Let_def)

lemma FindFiles_eq:
  "szDirPath \<noteq> [] \<Longrightarrow>
     FindFiles szDirPath entries = Some (map (content_of szDirPath) (filter pushed entries))"
proof (induction entries)
  case Nil
  then show ?case by simp
next
  case (Cons e entries)
  obtain cFileName node where e: "e = (cFileName, node)" by (cases e)
  from Cons show ?case
    by (simp add: e pushed_def content_of_def CDirContent_ctor_prefix)
qed

lemma content_path_nonempty:
  "szDirPath \<noteq> [] \<Longrightarrow> GetPath (fst (content_of szDirPath e)) \<noteq> []"
  by (simp add: content_of_def GetPath_def dir_prefix_nonempty)

lemma set_list_sort: "set (list_sort compare_content xs) = set xs"
  by (simp add: list_sort_compare_content)

subsection \<open>The traversal returns\<close>

lemma HashDirectory_defined:
  "szDirPath \<noteq> [] \<Longrightarrow>
     HashDirectory x szDirPath entries lastError pHash bIncludeNames excludeSpecList \<noteq> None"
  and HashDirContent_defined:
  "(\<forall>e \<in> set dirContent. GetPath (fst e) \<noteq> []) \<Longrightarrow>
     HashDirContent x dirContent pHash bIncludeNames excludeSpecList \<noteq> None"
proof (induction x szDirPath entries lastError pHash bIncludeNames excludeSpecList
         and x dirContent pHash bIncludeNames excludeSpecList
       rule: HashDirectory_HashDirContent.induct)
  case (1 x szDirPath entries lastError pHash bIncludeNames excludeSpecList)
  let ?dc = "map (content_of szDirPath) (filter pushed entries)"
  note eq = HashDirectory_eq [of x szDirPath entries lastError pHash bIncludeNames excludeSpecList]
  have f: "FindFiles szDirPath entries = Some ?dc"
    using "1.prems" by (rule FindFiles_eq)
  show ?case
  proof (cases "skipped x szDirPath excludeSpecList \<or> entries = []
                 \<or> lastError \<noteq> ERROR_NO_MORE_FILES")
    case True
    with eq f show ?thesis by auto
  next
    case False
    then have excl: "\<not> skipped x szDirPath excludeSpecList" and ne: "entries \<noteq> []"
      and le: "\<not> lastError \<noteq> ERROR_NO_MORE_FILES"
      by auto
    have paths: "\<forall>e \<in> set (list_sort compare_content ?dc). GetPath (fst e) \<noteq> []"
      using "1.prems" by (auto simp: set_list_sort content_path_nonempty)
    have "HashDirContent x (list_sort compare_content ?dc)
            (if bIncludeNames then hash_name x szDirPath pHash else pHash)
            bIncludeNames excludeSpecList \<noteq> None"
      using "1.IH" [OF _ refl ne f le paths] excl by (simp add: skipped_def)
    with eq excl ne f le show ?thesis by (simp add: with_name_def)
  qed
next
  case (2 x pHash bIncludeNames excludeSpecList)
  show ?case by simp
next
  case (3 x c entries lastError rest pHash bIncludeNames excludeSpecList)
  from "3.prems" have c: "GetPath c \<noteq> []" and r: "\<forall>e \<in> set rest. GetPath (fst e) \<noteq> []"
    by auto
  from "3.IH"(1) [OF c] obtain e1 h1 where
    d: "HashDirectory x (GetPath c) entries lastError pHash bIncludeNames excludeSpecList
          = Some (e1, h1)"
    by auto
  show ?case
  proof (cases "e1 \<noteq> 0")
    case True
    with d show ?thesis by simp
  next
    case False
    from "3.IH"(2) [OF d refl False r] d False show ?thesis by simp
  qed
next
  case (4 x c f rest pHash bIncludeNames excludeSpecList)
  from "4.prems" have r: "\<forall>e \<in> set rest. GetPath (fst e) \<noteq> []" by auto
  obtain e1 h1 where
    d: "HashFile x (GetPath c) f pHash bIncludeNames excludeSpecList = (e1, h1)"
    by (cases "HashFile x (GetPath c) f pHash bIncludeNames excludeSpecList")
  show ?case
  proof (cases "e1 \<noteq> 0")
    case True
    with d show ?thesis by simp
  next
    case False
    from "4.IH" [OF d [symmetric] False r] d False show ?thesis by simp
  qed
qed

section \<open>Folding names into the hash\<close>

text \<open>
  C6. With name-folding enabled, the first bytes a visited entry adds to the hash are
  those of its raw path when the path is longer than \<open>MAX_PATH\<close>, and such an entry is
  visited whatever the patterns are, even when one matches; otherwise, for an entry that
  is not excluded, they are the bytes of the canonicalized path, and of the raw path
  unchanged when \<open>PathCanonicalize\<close> fails. This holds for files (opened or not) and for
  directories, whose traversal returns with those bytes first.
\<close>

theorem folded_name_bytes:
  "(MAX_PATH < length szPath \<longrightarrow>
      HashFile x szPath (Inr bytes) pHash True excludeSpecList
        = (0, fread_loop bytes (Update pHash (tbytes szPath)))
      \<and> HashFile x szPath (Inl errno) pHash True excludeSpecList
        = (- 1, Update pHash (tbytes szPath))
      \<and> (\<exists>dwError pHash' ys.
            HashDirectory x szPath entries lastError pHash True excludeSpecList
              = Some (dwError, pHash')
            \<and> m_ctx pHash' = m_ctx pHash @ tbytes szPath # ys))
   \<and> (length szPath \<le> MAX_PATH
        \<and> \<not> (excludeSpecList \<noteq> [] \<and> IsExcludedName x szPath excludeSpecList) \<longrightarrow>
      HashFile x szPath (Inr bytes) pHash True excludeSpecList
        = (0, fread_loop bytes (Update pHash
               (tbytes (case PathCanonicalize x szPath of None \<Rightarrow> szPath | Some c \<Rightarrow> c))))
      \<and> HashFile x szPath (Inl errno) pHash True excludeSpecList
        = (- 1, Update pHash
               (tbytes (case PathCanonicalize x szPath of None \<Rightarrow> szPath | Some c \<Rightarrow> c)))
      \<and> (szPath \<noteq> [] \<longrightarrow>
           (\<exists>dwError pHash' ys.
              HashDirectory x szPath entries lastError pHash True excludeSpecList
                = Some (dwError, pHash')
              \<and> m_ctx pHash' = m_ctx pHash
                  @ tbytes (case PathCanonicalize x szPath of None \<Rightarrow> szPath | Some c \<Rightarrow> c)
                  # ys)))"
proof -
  let ?canon = "case PathCanonicalize x szPath of None \<Rightarrow> szPath | Some c \<Rightarrow> c"
  have dir: "\<exists>dwError pHash' ys.
      HashDirectory x szPath entries lastError pHash True excludeSpecList = Some (dwError, pHash')
      \<and> m_ctx pHash' = m_ctx pHash @ t # ys"
    if ns: "\<not> skipped x szPath excludeSpecList" and p: "szPath \<noteq> []"
      and w: "with_name x szPath True pHash = Update pHash t" for t
  proof -
    from HashDirectory_defined [OF p] obtain dwError pHash' where
      r: "HashDirectory x szPath entries lastError pHash True excludeSpecList
            = Some (dwError, pHash')"
      by fastforce
    let ?dc = "list_sort compare_content (map (content_of szPath) (filter pushed entries))"
    have "HashDirectory x szPath entries lastError pHash True excludeSpecList
            = (if entries = [] \<or> lastError \<noteq> ERROR_NO_MORE_FILES
               then Some (lastError, Update pHash t)
               else HashDirContent x ?dc (Update pHash t) True excludeSpecList)"
      by (auto simp: HashDirectory_eq ns w FindFiles_eq [OF p])
    with r have r': "(if entries = [] \<or> lastError \<noteq> ERROR_NO_MORE_FILES
               then Some (lastError, Update pHash t)
               else HashDirContent x ?dc (Update pHash t) True excludeSpecList)
              = Some (dwError, pHash')"
      by simp
    have "\<exists>ys. m_ctx pHash' = m_ctx (Update pHash t) @ ys"
    proof (cases "entries = [] \<or> lastError \<noteq> ERROR_NO_MORE_FILES")
      case True
      with r' have "pHash' = Update pHash t" by simp
      then show ?thesis by simp
    next
      case False
      with r' have "HashDirContent x ?dc (Update pHash t) True excludeSpecList
                      = Some (dwError, pHash')"
        by simp
      from HashDirContent_grows [OF this] show ?thesis by blast
    qed
    then have "\<exists>ys. m_ctx pHash' = m_ctx pHash @ t # ys"
      by (auto simp: Update_def)
    with r show ?thesis by blast
  qed
  have long: "MAX_PATH < length szPath \<Longrightarrow> \<not> skipped x szPath excludeSpecList
      \<and> with_name x szPath True pHash = Update pHash (tbytes szPath) \<and> szPath \<noteq> []"
    by (auto simp: skipped_def with_name_def hash_name_def)
  have short: "length szPath \<le> MAX_PATH
        \<and> \<not> (excludeSpecList \<noteq> [] \<and> IsExcludedName x szPath excludeSpecList)
      \<Longrightarrow> \<not> skipped x szPath excludeSpecList
        \<and> with_name x szPath True pHash = Update pHash (tbytes ?canon)"
    by (auto simp: skipped_def with_name_def hash_name_def)
  show ?thesis
    using long short dir by (simp add: HashFile_eq)
qed
theorem folded_name_bytes_witness:
  "MAX_PATH < length (replicate 261 (0x61 :: TCHAR))
   \<and> IsExcludedName sample (replicate 261 0x61) [wide ''*'']
   \<and> HashFile sample (replicate 261 0x61) (Inl 5) (Init Sha1) True [wide ''*'']
       = (- 1, Update (Init Sha1) (tbytes (replicate 261 0x61)))
   \<and> length (wide ''a.txt'') \<le> MAX_PATH
   \<and> \<not> ([wide ''*.tmp''] \<noteq> [] \<and> IsExcludedName sample (wide ''a.txt'') [wide ''*.tmp''])
   \<and> HashFile sample (wide ''a.txt'') (Inr [1]) (Init Sha1) True [wide ''*.tmp'']
       = (0, \<lparr>algo = Sha1, m_ctx = [[0x61, 0, 0x2E, 0, 0x74, 0, 0x78, 0, 0x74, 0], [1]]\<rparr>)
   \<and> HashFile (sample\<lparr>PathCanonicalize := \<lambda>p. None\<rparr>) (wide ''a.txt'') (Inl 5) (Init Sha1) True []
       = (- 1, \<lparr>algo = Sha1, m_ctx = [[0x61, 0, 0x2E, 0, 0x74, 0, 0x78, 0, 0x74, 0]]\<rparr>)"
proof -
  let ?long = "replicate 261 (0x61 :: TCHAR)"
  let ?x0 = "sample\<lparr>PathCanonicalize := \<lambda>p. None\<rparr>"
  have l: "MAX_PATH < length ?long" by (simp add: MAX_PATH_def)
  have m: "IsExcludedName sample ?long [wide ''*'']" by code_simp
  have s: "length (wide ''a.txt'') \<le> MAX_PATH
      \<and> \<not> ([wide ''*.tmp''] \<noteq> [] \<and> IsExcludedName sample (wide ''a.txt'') [wide ''*.tmp''])"
    by code_simp
  have s0: "length (wide ''a.txt'') \<le> MAX_PATH
      \<and> \<not> ([] \<noteq> ([] :: wstring list) \<and> IsExcludedName ?x0 (wide ''a.txt'') [])"
    by (simp add: MAX_PATH_def wide_def)
  have c: "(case PathCanonicalize sample (wide ''a.txt'') of None \<Rightarrow> wide ''a.txt'' | Some c \<Rightarrow> c)
             = wide ''a.txt''"
    by (simp add: sample_def)
  have c0: "(case PathCanonicalize ?x0 (wide ''a.txt'') of None \<Rightarrow> wide ''a.txt'' | Some c \<Rightarrow> c)
             = wide ''a.txt''"
    by simp
  have f: "fread_loop [1] (Update (Init Sha1) (tbytes (wide ''a.txt'')))
             = \<lparr>algo = Sha1, m_ctx = [[0x61, 0, 0x2E, 0, 0x74, 0, 0x78, 0, 0x74, 0], [1]]\<rparr>"
    by code_simp
  have u: "Update (Init Sha1) (tbytes (wide ''a.txt''))
             = \<lparr>algo = Sha1, m_ctx = [[0x61, 0, 0x2E, 0, 0x74, 0, 0x78, 0, 0x74, 0]]\<rparr>"
    by code_simp
  from folded_name_bytes [where szPath = ?long and x = sample and pHash = "Init Sha1"
      and excludeSpecList = "[wide ''*'']" and errno = 5] l
  have 1: "HashFile sample ?long (Inl 5) (Init Sha1) True [wide ''*'']
             = (- 1, Update (Init Sha1) (tbytes ?long))"
    by blast
  from folded_name_bytes [where szPath = "wide ''a.txt''" and x = sample and bytes = "[1]"
      and pHash = "Init Sha1" and excludeSpecList = "[wide ''*.tmp'']"] s
  have 2: "HashFile sample (wide ''a.txt'') (Inr [1]) (Init Sha1) True [wide ''*.tmp'']
             = (0, fread_loop [1] (Update (Init Sha1) (tbytes (wide ''a.txt''))))"
    unfolding c by blast
  from folded_name_bytes [where szPath = "wide ''a.txt''" and x = ?x0 and pHash = "Init Sha1"
      and excludeSpecList = "[]" and errno = 5] s0
  have 3: "HashFile ?x0 (wide ''a.txt'') (Inl 5) (Init Sha1) True []
             = (- 1, Update (Init Sha1) (tbytes (wide ''a.txt'')))"
    unfolding c0 by blast
  from 2 have r2: "HashFile sample (wide ''a.txt'') (Inr [1]) (Init Sha1) True [wide ''*.tmp'']
       = (0, \<lparr>algo = Sha1, m_ctx = [[0x61, 0, 0x2E, 0, 0x74, 0, 0x78, 0, 0x74, 0], [1]]\<rparr>)"
    by (simp only: f)
  from 3 have r3: "HashFile ?x0 (wide ''a.txt'') (Inl 5) (Init Sha1) True []
       = (- 1, \<lparr>algo = Sha1, m_ctx = [[0x61, 0, 0x2E, 0, 0x74, 0, 0x78, 0, 0x74, 0]]\<rparr>)"
    by (simp only: u)
  from l m s 1 r2 r3 show ?thesis by blast
qed

section \<open>Entries that leave no trace\<close>

lemma HashDirContent_Cons:
  "HashDirContent x (e # rest) pHash bIncludeNames excludeSpecList =
     (case visit x e pHash bIncludeNames excludeSpecList of
        None \<Rightarrow> None
      | Some (dwError, pHash') \<Rightarrow>
          if dwError \<noteq> 0 then Some (dwError, pHash')
          else HashDirContent x rest pHash' bIncludeNames excludeSpecList)"
proof -
  obtain c node where e: "e = (c, node)" by (cases e)
  show ?thesis
    by (cases node) (simp_all add: e visit_def split: prod.splits)
qed

lemma HashDirContent_skip:
  assumes "\<And>e pHash. e \<in> set dirContent \<Longrightarrow> Q e \<Longrightarrow>
             visit x e pHash bIncludeNames excludeSpecList = Some (0, pHash)"
  shows "HashDirContent x dirContent pHash bIncludeNames excludeSpecList
           = HashDirContent x (filter (\<lambda>e. \<not> Q e) dirContent) pHash bIncludeNames excludeSpecList"
  using assms
proof (induction dirContent arbitrary: pHash)
  case Nil
  show ?case by simp
next
  case (Cons e rest)
  have rest: "HashDirContent x rest h bIncludeNames excludeSpecList
           = HashDirContent x (filter (\<lambda>e. \<not> Q e) rest) h bIncludeNames excludeSpecList" for h
    using Cons.prems by (intro Cons.IH) auto
  show ?case
  proof (cases "Q e")
    case True
    with Cons.prems [of e pHash] have "visit x e pHash bIncludeNames excludeSpecList = Some (0, pHash)"
      by simp
    with True rest show ?thesis by (simp add: HashDirContent_Cons)
  next
    case False
    with rest show ?thesis
      by (simp add: HashDirContent_Cons split: option.splits prod.splits)
  qed
qed

lemma HashDirContent_cong:
  assumes "list_all2 (\<lambda>a b. \<forall>pHash. visit x a pHash bIncludeNames excludeSpecList
                                  = visit x b pHash bIncludeNames excludeSpecList) as bs"
  shows "HashDirContent x as pHash bIncludeNames excludeSpecList
           = HashDirContent x bs pHash bIncludeNames excludeSpecList"
  using assms
proof (induction as bs arbitrary: pHash rule: list_all2_induct)
  case Nil
  show ?case by simp
next
  case (Cons a as b bs)
  then show ?case
    by (simp add: HashDirContent_Cons split: option.splits prod.splits)
qed

lemma list_all2_insort_key:
  assumes "list_all2 R xs ys" and "R a b" and "\<And>u v. R u v \<Longrightarrow> key u = key v"
  shows "list_all2 R (insort_key key a xs) (insort_key key b ys)"
  using assms(1)
proof (induction xs ys rule: list_all2_induct)
  case Nil
  from assms(2) show ?case by simp
next
  case (Cons x xs y ys)
  from assms(3) [OF assms(2)] assms(3) [OF Cons.hyps(1)] Cons assms(2)
  show ?case by simp
qed

lemma list_all2_sort_key:
  assumes "list_all2 R xs ys" and "\<And>u v. R u v \<Longrightarrow> key u = key v"
  shows "list_all2 R (sort_key key xs) (sort_key key ys)"
  using assms(1)
proof (induction xs ys rule: list_all2_induct)
  case Nil
  show ?case by simp
next
  case (Cons x xs y ys)
  then show ?case
    by (simp add: sort_key_simps list_all2_insort_key assms(2))
qed

lemma absent_nonempty: "absent Q szDirPath entries entries' \<Longrightarrow> entries \<noteq> [] \<and> entries' \<noteq> []"
  by (induction rule: absent.induct) auto

lemma HashDirectory_listed:
  assumes "szDirPath \<noteq> []" and "entries \<noteq> []"
  shows "HashDirectory x szDirPath entries lastError pHash bIncludeNames excludeSpecList =
     (if skipped x szDirPath excludeSpecList then Some (0, pHash)
      else if lastError \<noteq> ERROR_NO_MORE_FILES
      then Some (lastError, with_name x szDirPath bIncludeNames pHash)
      else HashDirContent x
             (list_sort compare_content (map (content_of szDirPath) (filter pushed entries)))
             (with_name x szDirPath bIncludeNames pHash) bIncludeNames excludeSpecList)"
  using assms by (simp add: HashDirectory_eq FindFiles_eq)

lemma absent_same_result:
  assumes "absent Q szDirPath entries entries'" and "szDirPath \<noteq> []"
    and noop: "\<And>e pHash. Q e \<Longrightarrow> visit x e pHash bIncludeNames excludeSpecList = Some (0, pHash)"
  shows "HashDirectory x szDirPath entries lastError pHash bIncludeNames excludeSpecList
           = HashDirectory x szDirPath entries' lastError pHash bIncludeNames excludeSpecList"
  using assms(1,2)
proof (induction arbitrary: lastError pHash rule: absent.induct)
  case (here szDirPath e before after)
  let ?c = "content_of szDirPath"
  let ?L = "map ?c (filter pushed (before @ e # after))"
  let ?L' = "map ?c (filter pushed (before @ after))"
  have "filter (\<lambda>e. \<not> Q e) ?L = filter (\<lambda>e. \<not> Q e) ?L'"
    using here.hyps(1) by simp
  then have "filter (\<lambda>e. \<not> Q e) (sort_key lower_path ?L)
               = filter (\<lambda>e. \<not> Q e) (sort_key lower_path ?L')"
    by (simp add: filter_sort)
  then have H: "HashDirContent x (list_sort compare_content ?L) h bIncludeNames excludeSpecList
               = HashDirContent x (list_sort compare_content ?L') h bIncludeNames excludeSpecList"
    for h
    using HashDirContent_skip [of "list_sort compare_content ?L" Q x bIncludeNames excludeSpecList h]
      HashDirContent_skip [of "list_sort compare_content ?L'" Q x bIncludeNames excludeSpecList h]
      noop
    by (simp add: list_sort_compare_content)
  have ne: "before @ e # after \<noteq> []" by simp
  show ?case
    by (simp only: HashDirectory_listed [OF here.prems ne]
          HashDirectory_listed [OF here.prems here.hyps(2)] H)
next
  case (below szDirPath cFileName entries entries' before lastError' after)
  let ?c = "content_of szDirPath"
  let ?a = "(cFileName, FsDir entries lastError')"
  let ?b = "(cFileName, FsDir entries' lastError')"
  let ?R = "\<lambda>a b. lower_path a = lower_path b
             \<and> (\<forall>pHash. visit x a pHash bIncludeNames excludeSpecList
                        = visit x b pHash bIncludeNames excludeSpecList)"
  let ?L = "map ?c (filter pushed (before @ ?a # after))"
  let ?L' = "map ?c (filter pushed (before @ ?b # after))"
  have sub: "dir_prefix szDirPath @ cFileName \<noteq> []"
    using below.prems by (simp add: dir_prefix_nonempty)
  have ab: "?R (?c ?a) (?c ?b)"
    using below.IH [OF sub]
    by (simp add: content_of_def lower_path_def visit_def GetPath_def)
  have refl: "list_all2 ?R zs zs" for zs
    by (simp add: list_all2_refl)
  have "list_all2 ?R ?L ?L'"
    using ab refl by (auto simp: pushed_def intro!: list_all2_appendI)
  then have "list_all2 ?R (sort_key lower_path ?L) (sort_key lower_path ?L')"
    by (rule list_all2_sort_key) simp
  then have "list_all2 (\<lambda>a b. \<forall>pHash. visit x a pHash bIncludeNames excludeSpecList
                                  = visit x b pHash bIncludeNames excludeSpecList)
               (list_sort compare_content ?L) (list_sort compare_content ?L')"
    by (simp add: list_sort_compare_content list_all2_conv_all_nth)
  from HashDirContent_cong [OF this]
  have H: "HashDirContent x (list_sort compare_content ?L) h bIncludeNames excludeSpecList
             = HashDirContent x (list_sort compare_content ?L') h bIncludeNames excludeSpecList"
    for h .
  have ne: "before @ ?a # after \<noteq> []" "before @ ?b # after \<noteq> []" by simp_all
  show ?case
    by (simp only: HashDirectory_listed [OF below.prems ne(1)]
          HashDirectory_listed [OF below.prems ne(2)] H)
qed
section \<open>Empty files\<close>

lemma visit_empty_file:
  "snd e = FsFile (Inr []) \<Longrightarrow> visit x e pHash False excludeSpecList = Some (0, pHash)"
  by (simp add: visit_def HashFile_eq with_name_def fread_loop_Nil)

text \<open>
  C10. Without name-folding, \<open>HashFile\<close> on a file of zero bytes returns 0 and leaves
  the hash object as it was: no \<open>Update\<close> is made (this holds whether or not a pattern
  matches the file). Hence a directory tree with one empty file removed anywhere (or,
  read from right to left, added) is hashed to the same result, from every state of the
  hash object; and the traversal does return a result.
\<close>

theorem empty_file_leaves_no_trace:
  "HashFile x szFilePath (Inr []) pHash False excludeSpecList = (0, pHash)
   \<and> (absent (\<lambda>e. snd e = FsFile (Inr [])) szDirPath entries entries' \<and> szDirPath \<noteq> [] \<longrightarrow>
        HashDirectory x szDirPath entries lastError pHash False excludeSpecList
          = HashDirectory x szDirPath entries' lastError pHash False excludeSpecList
        \<and> (\<exists>dwError pHash'.
              HashDirectory x szDirPath entries lastError pHash False excludeSpecList
                = Some (dwError, pHash')))"
proof -
  have 1: "HashFile x szFilePath (Inr []) pHash False excludeSpecList = (0, pHash)"
    by (simp add: HashFile_eq with_name_def fread_loop_Nil)
  have 2: "HashDirectory x szDirPath entries lastError pHash False excludeSpecList
          = HashDirectory x szDirPath entries' lastError pHash False excludeSpecList"
    if "absent (\<lambda>e. snd e = FsFile (Inr [])) szDirPath entries entries'" "szDirPath \<noteq> []"
    using that by (rule absent_same_result) (rule visit_empty_file)
  have 3: "\<exists>dwError pHash'.
              HashDirectory x szDirPath entries lastError pHash False excludeSpecList
                = Some (dwError, pHash')"
    if "szDirPath \<noteq> []"
    using HashDirectory_defined [OF that, of x entries lastError pHash False excludeSpecList]
    by auto
  from 1 2 3 show ?thesis by blast
qed

theorem empty_file_leaves_no_trace_witness:
  "absent (\<lambda>e. snd e = FsFile (Inr [])) (wide ''/t'')
     [(wide ''.'', FsDir [] 0), (wide ''..'', FsDir [] 0),
      (wide ''sub'', FsDir [(wide ''.'', FsDir [] 0), (wide ''empty.txt'', FsFile (Inr [])),
                            (wide ''b.txt'', FsFile (Inr [0x77]))] ERROR_NO_MORE_FILES),
      (wide ''a.txt'', FsFile (Inr [0x68]))]
     [(wide ''.'', FsDir [] 0), (wide ''..'', FsDir [] 0),
      (wide ''sub'', FsDir [(wide ''.'', FsDir [] 0),
                            (wide ''b.txt'', FsFile (Inr [0x77]))] ERROR_NO_MORE_FILES),
      (wide ''a.txt'', FsFile (Inr [0x68]))]
   \<and> wide ''/t'' \<noteq> []
   \<and> HashDirectory sample (wide ''/t'')
       [(wide ''.'', FsDir [] 0), (wide ''..'', FsDir [] 0),
        (wide ''sub'', FsDir [(wide ''.'', FsDir [] 0), (wide ''empty.txt'', FsFile (Inr [])),
                              (wide ''b.txt'', FsFile (Inr [0x77]))] ERROR_NO_MORE_FILES),
        (wide ''a.txt'', FsFile (Inr [0x68]))]
       ERROR_NO_MORE_FILES (Init Sha1) False []
     = Some (0, \<lparr>algo = Sha1, m_ctx = [[0x68], [0x77]]\<rparr>)"
proof -
  let ?Q = "\<lambda>e :: CDirContent \<times> fsnode. snd e = FsFile (Inr [])"
  let ?sub = "[(wide ''.'', FsDir [] 0), (wide ''empty.txt'', FsFile (Inr [])),
               (wide ''b.txt'', FsFile (Inr [0x77]))]"
  let ?sub' = "[(wide ''.'', FsDir [] 0), (wide ''b.txt'', FsFile (Inr [0x77]))]"
  let ?es = "[(wide ''.'', FsDir [] 0), (wide ''..'', FsDir [] 0),
              (wide ''sub'', FsDir ?sub ERROR_NO_MORE_FILES),
              (wide ''a.txt'', FsFile (Inr [0x68]))]"
  let ?es' = "[(wide ''.'', FsDir [] 0), (wide ''..'', FsDir [] 0),
              (wide ''sub'', FsDir ?sub' ERROR_NO_MORE_FILES),
              (wide ''a.txt'', FsFile (Inr [0x68]))]"
  have "absent ?Q (dir_prefix (wide ''/t'') @ wide ''sub'')
          ([(wide ''.'', FsDir [] 0)] @ (wide ''empty.txt'', FsFile (Inr []))
             # [(wide ''b.txt'', FsFile (Inr [0x77]))])
          ([(wide ''.'', FsDir [] 0)] @ [(wide ''b.txt'', FsFile (Inr [0x77]))])"
    by (rule absent.here) (simp_all add: content_of_def)
  then have "absent ?Q (wide ''/t'')
          ([(wide ''.'', FsDir [] 0), (wide ''..'', FsDir [] 0)]
             @ (wide ''sub'', FsDir ?sub ERROR_NO_MORE_FILES) # [(wide ''a.txt'', FsFile (Inr [0x68]))])
          ([(wide ''.'', FsDir [] 0), (wide ''..'', FsDir [] 0)]
             @ (wide ''sub'', FsDir ?sub' ERROR_NO_MORE_FILES) # [(wide ''a.txt'', FsFile (Inr [0x68]))])"
    by (intro absent.below) simp
  then have a: "absent ?Q (wide ''/t'') ?es ?es'" by simp
  have n: "wide ''/t'' \<noteq> []" by (simp add: wide_def)
  have r: "HashDirectory sample (wide ''/t'') ?es' ERROR_NO_MORE_FILES (Init Sha1) False []
             = Some (0, \<lparr>algo = Sha1, m_ctx = [[0x68], [0x77]]\<rparr>)"
    by code_simp
  from empty_file_leaves_no_trace [of sample "[]" "Init Sha1" "[]" "wide ''/t''" ?es ?es'
      ERROR_NO_MORE_FILES] a n
  have "HashDirectory sample (wide ''/t'') ?es ERROR_NO_MORE_FILES (Init Sha1) False []
          = HashDirectory sample (wide ''/t'') ?es' ERROR_NO_MORE_FILES (Init Sha1) False []"
    by blast
  with r have "HashDirectory sample (wide ''/t'') ?es ERROR_NO_MORE_FILES (Init Sha1) False []
          = Some (0, \<lparr>algo = Sha1, m_ctx = [[0x68], [0x77]]\<rparr>)"
    by (rule trans [rotated])
  with a n show ?thesis by blast
qed

section \<open>Excluded entries\<close>

lemma visit_skipped:
  "skipped x (GetPath (fst e)) excludeSpecList \<Longrightarrow>
     visit x e pHash bIncludeNames excludeSpecList = Some (0, pHash)"
  by (cases "snd e") (simp_all add: visit_def HashFile_eq HashDirectory_eq)

text \<open>
  C5 (as amended). An entry whose path is no longer than \<open>MAX_PATH\<close> and is matched by a
  pattern contributes nothing: \<open>HashFile\<close> returns 0 with the hash object untouched and
  without opening the file, \<open>HashDirectory\<close> returns 0 with the hash object untouched
  and without enumerating the directory, and a directory tree is hashed to the same
  result with such an entry absent, at any depth.
\<close>

theorem excluded_entry_leaves_no_trace:
  "(length szPath \<le> MAX_PATH \<and> excludeSpecList \<noteq> []
      \<and> IsExcludedName x szPath excludeSpecList \<longrightarrow>
        HashFile x szPath f pHash bIncludeNames excludeSpecList = (0, pHash)
        \<and> HashDirectory x szPath entries lastError pHash bIncludeNames excludeSpecList
            = Some (0, pHash))
   \<and> (absent (\<lambda>e. length (GetPath (fst e)) \<le> MAX_PATH \<and> excludeSpecList \<noteq> []
                   \<and> IsExcludedName x (GetPath (fst e)) excludeSpecList)
          szDirPath entries entries'
        \<and> szDirPath \<noteq> [] \<longrightarrow>
        HashDirectory x szDirPath entries lastError pHash bIncludeNames excludeSpecList
          = HashDirectory x szDirPath entries' lastError pHash bIncludeNames excludeSpecList)"
proof -
  have 1: "HashFile x szPath f pHash bIncludeNames excludeSpecList = (0, pHash)
        \<and> HashDirectory x szPath entries lastError pHash bIncludeNames excludeSpecList
            = Some (0, pHash)"
    if "length szPath \<le> MAX_PATH \<and> excludeSpecList \<noteq> []
          \<and> IsExcludedName x szPath excludeSpecList"
    using that by (simp add: HashFile_eq HashDirectory_eq skipped_def)
  have 2: "HashDirectory x szDirPath entries lastError pHash bIncludeNames excludeSpecList
          = HashDirectory x szDirPath entries' lastError pHash bIncludeNames excludeSpecList"
    if "absent (\<lambda>e. length (GetPath (fst e)) \<le> MAX_PATH \<and> excludeSpecList \<noteq> []
                   \<and> IsExcludedName x (GetPath (fst e)) excludeSpecList)
          szDirPath entries entries'" "szDirPath \<noteq> []"
    using that by (rule absent_same_result) (simp add: visit_skipped skipped_def)
  from 1 2 show ?thesis by blast
qed

theorem excluded_entry_leaves_no_trace_witness:
  "length (wide ''/t'' @ [0x5C] @ wide ''notes.tmp'') \<le> MAX_PATH
   \<and> [wide ''*.tmp''] \<noteq> []
   \<and> IsExcludedName sample (wide ''/t'' @ [0x5C] @ wide ''notes.tmp'') [wide ''*.tmp'']
   \<and> HashFile sample (wide ''/t'' @ [0x5C] @ wide ''notes.tmp'') (Inr [1, 2]) (Init Sha1)
        True [wide ''*.tmp''] = (0, Init Sha1)
   \<and> wide ''/t'' \<noteq> []
   \<and> HashDirectory sample (wide ''/t'')
        [(wide ''.'', FsDir [] 0), (wide ''notes.tmp'', FsFile (Inr [1, 2])),
         (wide ''a.txt'', FsFile (Inr [0x68]))]
        ERROR_NO_MORE_FILES (Init Sha1) False [wide ''*.tmp'']
      = Some (0, \<lparr>algo = Sha1, m_ctx = [[0x68]]\<rparr>)"
proof -
  let ?p = "wide ''/t'' @ [0x5C] @ wide ''notes.tmp''"
  let ?Q = "\<lambda>e :: CDirContent \<times> fsnode.
              length (GetPath (fst e)) \<le> MAX_PATH \<and> [wide ''*.tmp''] \<noteq> []
              \<and> IsExcludedName sample (GetPath (fst e)) [wide ''*.tmp'']"
  let ?es = "[(wide ''.'', FsDir [] 0), (wide ''notes.tmp'', FsFile (Inr [1, 2])),
              (wide ''a.txt'', FsFile (Inr [0x68]))]"
  let ?es' = "[(wide ''.'', FsDir [] 0), (wide ''a.txt'', FsFile (Inr [0x68]))]"
  have h: "length ?p \<le> MAX_PATH \<and> [wide ''*.tmp''] \<noteq> []
             \<and> IsExcludedName sample ?p [wide ''*.tmp'']"
    by code_simp
  have q: "?Q (content_of (wide ''/t'') (wide ''notes.tmp'', FsFile (Inr [1, 2])))"
    by code_simp
  have "absent ?Q (wide ''/t'')
          ([(wide ''.'', FsDir [] 0)] @ (wide ''notes.tmp'', FsFile (Inr [1, 2]))
             # [(wide ''a.txt'', FsFile (Inr [0x68]))])
          ([(wide ''.'', FsDir [] 0)] @ [(wide ''a.txt'', FsFile (Inr [0x68]))])"
    by (rule absent.here) (rule q, simp)
  then have a: "absent ?Q (wide ''/t'') ?es ?es'" by simp
  have n: "wide ''/t'' \<noteq> []" by (simp add: wide_def)
  have r: "HashDirectory sample (wide ''/t'') ?es' ERROR_NO_MORE_FILES (Init Sha1) False
             [wide ''*.tmp'']
             = Some (0, \<lparr>algo = Sha1, m_ctx = [[0x68]]\<rparr>)"
    by code_simp
  from excluded_entry_leaves_no_trace [where szPath = ?p and excludeSpecList = "[wide ''*.tmp'']"
      and x = sample and f = "Inr [1, 2]" and pHash = "Init Sha1" and bIncludeNames = True] h
  have 1: "HashFile sample ?p (Inr [1, 2]) (Init Sha1) True [wide ''*.tmp''] = (0, Init Sha1)"
    by blast
  from excluded_entry_leaves_no_trace [where x = sample and excludeSpecList = "[wide ''*.tmp'']"
      and szDirPath = "wide ''/t''" and entries = ?es and entries' = ?es'
      and lastError = ERROR_NO_MORE_FILES and pHash = "Init Sha1" and bIncludeNames = False] a n
  have 2: "HashDirectory sample (wide ''/t'') ?es ERROR_NO_MORE_FILES (Init Sha1) False
             [wide ''*.tmp'']
          = HashDirectory sample (wide ''/t'') ?es' ERROR_NO_MORE_FILES (Init Sha1) False
             [wide ''*.tmp'']"
    by blast
  from 2 r have 3: "HashDirectory sample (wide ''/t'') ?es ERROR_NO_MORE_FILES (Init Sha1) False
             [wide ''*.tmp''] = Some (0, \<lparr>algo = Sha1, m_ctx = [[0x68]]\<rparr>)"
    by (rule trans)
  from h n 1 3 show ?thesis by blast
qed

text \<open>
  C5 as stated fails for an entry whose path is longer than \<open>MAX_PATH\<close>: the guard
  \<open>pathLen <= MAX_PATH\<close> lets it through. Under a root directory whose path has 257
  characters, the file \<open>x.tmp\<close> has a path of 263 characters; the pattern \<open>*.tmp\<close>
  matches it, and its byte is hashed all the same, so the result differs from that of
  the tree without the file.
\<close>

theorem excluded_long_path_counterexample:
  "IsExcludedName sample (replicate 257 0x61 @ [0x5C] @ wide ''x.tmp'') [wide ''*.tmp'']
   \<and> HashDirectory sample (replicate 257 0x61)
        [(wide ''.'', FsDir [] 0), (wide ''..'', FsDir [] 0),
         (wide ''x.tmp'', FsFile (Inr [1]))]
        ERROR_NO_MORE_FILES (Init Sha1) False [wide ''*.tmp'']
      = Some (0, \<lparr>algo = Sha1, m_ctx = [[1]]\<rparr>)
   \<and> HashDirectory sample (replicate 257 0x61)
        [(wide ''.'', FsDir [] 0), (wide ''..'', FsDir [] 0)]
        ERROR_NO_MORE_FILES (Init Sha1) False [wide ''*.tmp'']
      = Some (0, \<lparr>algo = Sha1, m_ctx = []\<rparr>)"
  by code_simp

section \<open>The digest of a tree\<close>

lemma insort_key_map:
  "insort_key key (f a) (map f xs) = map f (insort_key (\<lambda>x. key (f x)) a xs)"
  by (induction xs) auto

lemma sort_key_map: "sort_key key (map f xs) = map f (sort_key (\<lambda>x. key (f x)) xs)"
  by (induction xs) (simp_all add: sort_key_simps insort_key_map)

lemma append_less_cancel: "(q @ a < q @ b) = (a < (b :: 'a :: linorder list))"
  by (induction q) auto

lemma sort_key_prefix:
  "sort_key (\<lambda>e. q @ key e) xs = sort_key (key :: 'a \<Rightarrow> 'b :: linorder list) xs"
proof -
  have "list_sort (\<lambda>a b. q @ key a < q @ key b) xs = list_sort (\<lambda>a b. key a < key b) xs"
    by (simp add: append_less_cancel)
  then show ?thesis
    by (simp only: list_sort_sort_key [of "\<lambda>e. q @ key e"] list_sort_sort_key [of key])
qed

lemma sorted_children_bytes:
  "concat (map (\<lambda>e. tree_bytes (snd e))
     (list_sort compare_content (map (content_of szDirPath) (filter pushed entries))))
   = tree_bytes (FsDir entries lastError)"
proof -
  let ?F = "filter pushed entries"
  let ?lower = "\<lambda>e :: wstring \<times> fsnode. map towlower (fst e)"
  have k: "(\<lambda>e. lower_path (content_of szDirPath e))
             = (\<lambda>e. map towlower (dir_prefix szDirPath) @ ?lower e)"
    by (auto simp: lower_path_def content_of_def)
  have "list_sort compare_content (map (content_of szDirPath) ?F)
          = map (content_of szDirPath) (sort_key (\<lambda>e. lower_path (content_of szDirPath e)) ?F)"
    by (simp only: list_sort_compare_content sort_key_map)
  also have "\<dots> = map (content_of szDirPath) (sort_key ?lower ?F)"
    by (simp only: k sort_key_prefix)
  finally have 1: "map (\<lambda>e. tree_bytes (snd e))
          (list_sort compare_content (map (content_of szDirPath) ?F))
        = map (\<lambda>e. tree_bytes (snd e)) (sort_key ?lower ?F)"
    by (simp add: content_of_def comp_def)
  have 2: "map snd (sort_key (\<lambda>child. map towlower (fst child))
                   (map (\<lambda>e. (fst e, tree_bytes (snd e))) ?F))
        = map (\<lambda>e. tree_bytes (snd e)) (sort_key ?lower ?F)"
    by (simp add: sort_key_map comp_def)
  from 1 2 show ?thesis by simp
qed

lemma HashDirectory_tree_bytes:
  "szDirPath \<noteq> [] \<Longrightarrow> bIncludeNames = False \<Longrightarrow> excludeSpecList = [] \<Longrightarrow>
   readable (FsDir entries lastError) \<Longrightarrow>
     \<exists>pHash'. HashDirectory x szDirPath entries lastError pHash bIncludeNames excludeSpecList
                = Some (0, pHash')
       \<and> algo pHash' = algo pHash
       \<and> concat (m_ctx pHash') = concat (m_ctx pHash) @ tree_bytes (FsDir entries lastError)"
  and HashDirContent_tree_bytes:
  "bIncludeNames = False \<Longrightarrow> excludeSpecList = [] \<Longrightarrow>
   \<forall>e \<in> set dirContent. GetPath (fst e) \<noteq> [] \<and> readable (snd e) \<Longrightarrow>
     \<exists>pHash'. HashDirContent x dirContent pHash bIncludeNames excludeSpecList = Some (0, pHash')
       \<and> algo pHash' = algo pHash
       \<and> concat (m_ctx pHash')
           = concat (m_ctx pHash) @ concat (map (\<lambda>e. tree_bytes (snd e)) dirContent)"
proof (induction x szDirPath entries lastError pHash bIncludeNames excludeSpecList
         and x dirContent pHash bIncludeNames excludeSpecList
       rule: HashDirectory_HashDirContent.induct)
  case (1 x szDirPath entries lastError pHash bIncludeNames excludeSpecList)
  let ?dc = "map (content_of szDirPath) (filter pushed entries)"
  from "1.prems" have ne: "entries \<noteq> []" and le: "\<not> lastError \<noteq> ERROR_NO_MORE_FILES"
    and rd: "\<forall>e \<in> set (filter pushed entries). readable (snd e)"
    by (simp_all add: list_all_iff)
  have f: "FindFiles szDirPath entries = Some ?dc"
    using "1.prems"(1) by (rule FindFiles_eq)
  have ns: "\<not> (length szDirPath \<le> MAX_PATH \<and> excludeSpecList \<noteq> []
               \<and> IsExcludedName x szDirPath excludeSpecList)"
    using "1.prems"(3) by simp
  have paths: "\<forall>e \<in> set (list_sort compare_content ?dc). GetPath (fst e) \<noteq> [] \<and> readable (snd e)"
    using "1.prems"(1) rd
    by (auto simp: set_list_sort content_path_nonempty) (simp add: content_of_def)
  from "1.IH" [OF ns refl ne f le "1.prems"(2,3) paths]
  obtain pHash' where
    r: "HashDirContent x (list_sort compare_content ?dc)
          (if bIncludeNames then hash_name x szDirPath pHash else pHash)
          bIncludeNames excludeSpecList = Some (0, pHash')"
    and a: "algo pHash' = algo (if bIncludeNames then hash_name x szDirPath pHash else pHash)"
    and c: "concat (m_ctx pHash')
           = concat (m_ctx (if bIncludeNames then hash_name x szDirPath pHash else pHash))
             @ concat (map (\<lambda>e. tree_bytes (snd e)) (list_sort compare_content ?dc))"
    by blast
  have "HashDirectory x szDirPath entries lastError pHash bIncludeNames excludeSpecList
          = Some (0, pHash')"
    using r "1.prems"(1,2,3) ne le
    by (simp add: HashDirectory_listed skipped_def with_name_def)
  with a c "1.prems"(2) show ?case
    by (simp add: sorted_children_bytes [of szDirPath entries lastError])
next
  case (2 x pHash bIncludeNames excludeSpecList)
  show ?case by simp
next
  case (3 x c entries lastError rest pHash bIncludeNames excludeSpecList)
  from "3.prems" have p: "GetPath c \<noteq> []" and rd: "readable (FsDir entries lastError)"
    and r: "\<forall>e \<in> set rest. GetPath (fst e) \<noteq> [] \<and> readable (snd e)"
    by auto
  from "3.IH"(1) [OF p "3.prems"(1,2) rd] obtain h1 where
    d: "HashDirectory x (GetPath c) entries lastError pHash bIncludeNames excludeSpecList
          = Some (0, h1)"
    and a1: "algo h1 = algo pHash"
    and c1: "concat (m_ctx h1) = concat (m_ctx pHash) @ tree_bytes (FsDir entries lastError)"
    by blast
  from "3.IH"(2) [OF d refl _ "3.prems"(1,2) r] obtain pHash' where
    "HashDirContent x rest h1 bIncludeNames excludeSpecList = Some (0, pHash')"
    "algo pHash' = algo h1"
    "concat (m_ctx pHash') = concat (m_ctx h1) @ concat (map (\<lambda>e. tree_bytes (snd e)) rest)"
    by auto
  with d a1 c1 show ?case by simp
next
  case (4 x c f rest pHash bIncludeNames excludeSpecList)
  from "4.prems" obtain bytes where f: "f = Inr bytes"
    and r: "\<forall>e \<in> set rest. GetPath (fst e) \<noteq> [] \<and> readable (snd e)"
    by (cases f) auto
  let ?h1 = "fread_loop bytes pHash"
  have d: "HashFile x (GetPath c) f pHash bIncludeNames excludeSpecList = (0, ?h1)"
    using "4.prems"(1,2) f by (simp add: HashFile_plain)
  from fread_loop_grows [of bytes pHash]
  have a1: "algo ?h1 = algo pHash" and c1: "concat (m_ctx ?h1) = concat (m_ctx pHash) @ bytes"
    by auto
  from "4.IH" [OF d [symmetric] _ "4.prems"(1,2) r] obtain pHash' where
    "HashDirContent x rest ?h1 bIncludeNames excludeSpecList = Some (0, pHash')"
    "algo pHash' = algo ?h1"
    "concat (m_ctx pHash') = concat (m_ctx ?h1) @ concat (map (\<lambda>e. tree_bytes (snd e)) rest)"
    by auto
  with d a1 c1 f show ?case by simp
qed
text \<open>
  C3. With \<open>bIncludeNames\<close> false and no pattern, the traversal of a readable
  directory tree succeeds and the digest that \<open>Final\<close> then delivers is the algorithm's
  digest of the concatenated file contents, depth first, the children of each directory
  in case-insensitive order. In particular a lone file yields the digest of its bytes, a
  directory that enumerates only \<open>.\<close> and \<open>..\<close> yields the digest of no bytes, and
  the tree with \<open>a.txt\<close> = hello and \<open>sub/b.txt\<close> = world under SHA-256 yields the
  SHA-256 digest of helloworld (here with \<open>sub\<close> enumerated before \<open>a.txt\<close>).
\<close>

theorem digest_of_tree_is_hash_of_concatenation:
  "(szDirPath \<noteq> [] \<and> readable (FsDir entries lastError) \<longrightarrow>
      (\<exists>pHash'. HashDirectory x szDirPath entries lastError (Init a) False [] = Some (0, pHash')
         \<and> Final x pHash' = digest x a (tree_bytes (FsDir entries lastError))))
   \<and> (\<exists>pHash'. HashFile x szFilePath (Inr bytes) (Init a) False [] = (0, pHash')
         \<and> Final x pHash' = digest x a bytes)
   \<and> (szDirPath \<noteq> [] \<longrightarrow>
      (\<exists>pHash'. HashDirectory x szDirPath
                   [(wide ''.'', FsDir es1 e1), (wide ''..'', FsDir es2 e2)]
                   ERROR_NO_MORE_FILES (Init a) False [] = Some (0, pHash')
         \<and> Final x pHash' = digest x a []))
   \<and> (\<exists>pHash'. HashDirectory x (wide ''/t'')
                   [(wide ''.'', FsDir [] 0), (wide ''..'', FsDir [] 0),
                    (wide ''sub'',
                       FsDir [(wide ''.'', FsDir [] 0), (wide ''..'', FsDir [] 0),
                              (wide ''b.txt'', FsFile (Inr (ascii ''world'')))]
                         ERROR_NO_MORE_FILES),
                    (wide ''a.txt'', FsFile (Inr (ascii ''hello'')))]
                   ERROR_NO_MORE_FILES (Init Sha256) False [] = Some (0, pHash')
         \<and> Final x pHash' = digest x Sha256 (ascii ''helloworld''))"
proof -
  have dir: "\<exists>pHash'. HashDirectory x p es le (Init a') False [] = Some (0, pHash')
         \<and> Final x pHash' = digest x a' (tree_bytes (FsDir es le))"
    if "p \<noteq> []" "readable (FsDir es le)" for p es le a'
  proof -
    from HashDirectory_tree_bytes [OF that(1) refl refl that(2), of x "Init a'"]
    obtain pHash' where "HashDirectory x p es le (Init a') False [] = Some (0, pHash')"
      "algo pHash' = algo (Init a')"
      "concat (m_ctx pHash') = concat (m_ctx (Init a')) @ tree_bytes (FsDir es le)"
      by blast
    then show ?thesis by (auto simp: Final_def Init_def)
  qed
  have lone: "\<exists>pHash'. HashFile x szFilePath (Inr bytes) (Init a) False [] = (0, pHash')
         \<and> Final x pHash' = digest x a bytes"
    using fread_loop_grows [of bytes "Init a"]
    by (auto simp: HashFile_plain Final_def Init_def)
  let ?empty = "[(wide ''.'', FsDir es1 e1), (wide ''..'', FsDir es2 e2)]"
  have e: "readable (FsDir ?empty ERROR_NO_MORE_FILES)"
    "tree_bytes (FsDir ?empty ERROR_NO_MORE_FILES) = []"
    by (simp_all add: pushed_def)
  let ?t = "[(wide ''.'', FsDir [] 0), (wide ''..'', FsDir [] 0),
             (wide ''sub'',
                FsDir [(wide ''.'', FsDir [] 0), (wide ''..'', FsDir [] 0),
                       (wide ''b.txt'', FsFile (Inr (ascii ''world'')))]
                  ERROR_NO_MORE_FILES),
             (wide ''a.txt'', FsFile (Inr (ascii ''hello'')))]"
  have t: "readable (FsDir ?t ERROR_NO_MORE_FILES)"
    "tree_bytes (FsDir ?t ERROR_NO_MORE_FILES) = ascii ''helloworld''"
    "wide ''/t'' \<noteq> []"
    by code_simp+
  from dir [of szDirPath entries lastError a] lone
    dir [OF _ e(1), of szDirPath a] dir [OF t(3) t(1), of Sha256]
  show ?thesis unfolding e(2) t(2) by blast
qed

theorem digest_of_tree_is_hash_of_concatenation_witness:
  "wide ''/t'' \<noteq> []
   \<and> readable (FsDir [(wide ''.'', FsDir [] 0), (wide ''B.txt'', FsFile (Inr (ascii ''b''))),
                      (wide ''a.txt'', FsFile (Inr (ascii ''a'')))] ERROR_NO_MORE_FILES)
   \<and> (\<exists>pHash'.
        HashDirectory sample (wide ''/t'')
          [(wide ''.'', FsDir [] 0), (wide ''B.txt'', FsFile (Inr (ascii ''b''))),
           (wide ''a.txt'', FsFile (Inr (ascii ''a'')))]
          ERROR_NO_MORE_FILES (Init Sha1) False [] = Some (0, pHash')
        \<and> Final sample pHash' = sample_digest Sha1 (ascii ''ab''))"
proof -
  let ?es = "[(wide ''.'', FsDir [] 0), (wide ''B.txt'', FsFile (Inr (ascii ''b''))),
              (wide ''a.txt'', FsFile (Inr (ascii ''a'')))]"
  have h: "wide ''/t'' \<noteq> [] \<and> readable (FsDir ?es ERROR_NO_MORE_FILES)"
    by code_simp
  have b: "tree_bytes (FsDir ?es ERROR_NO_MORE_FILES) = ascii ''ab''"
    by code_simp
  have d: "digest sample = sample_digest" by (simp add: sample_def)
  from digest_of_tree_is_hash_of_concatenation [of "wide ''/t''" ?es ERROR_NO_MORE_FILES
      sample Sha1] h
  have "\<exists>pHash'. HashDirectory sample (wide ''/t'') ?es ERROR_NO_MORE_FILES (Init Sha1) False []
          = Some (0, pHash')
        \<and> Final sample pHash' = digest sample Sha1 (tree_bytes (FsDir ?es ERROR_NO_MORE_FILES))"
    by blast
  with h show ?thesis unfolding b d by blast
qed

section \<open>Runs\<close>

lemma parse_args_Inl: "parse_args fopen_ok as args = Inl code \<Longrightarrow> code = 1"
  by (induction fopen_ok as args rule: parse_args.induct)
     (auto split: if_splits list.splits option.splits)

lemma sint_dword_0: "(sint (dwError :: DWORD) = 0) = (dwError = 0)"
  by (rule signed_eq_0_iff)

lemma hash_root_algo:
  assumes "hash_root x argv1 node pHash bIncludeNames excludeSpecList = Some (dwError, pHash')"
  shows "algo pHash' = algo pHash"
proof (cases node)
  case (FsFile f)
  with assms HashFile_grows [of x argv1 f pHash bIncludeNames excludeSpecList dwError pHash']
  show ?thesis by (simp add: hash_root_def)
next
  case (FsDir entries lastError)
  with assms obtain p where
    "HashDirectory x p entries lastError pHash bIncludeNames excludeSpecList
       = Some (dwError, pHash')"
    by (auto simp: hash_root_def split: if_splits)
  from HashDirectory_grows [OF this] show ?thesis by simp
qed

text \<open>A command line that passes the argument loop and the two checks on the path.\<close>

lemma tmain_checked:
  assumes "2 \<le> length argv"
    and "parse_args (fopen_append w) (drop 2 argv) no_options = Inr args"
    and "StringCchLength x (argv ! 1) MAX_PATH \<le> MAX_PATH - 3"
    and "path_node w (argv ! 1) = Some node"
  shows "tmain x w argv =
     (case hash_root x (argv ! 1) node
             (Init (case arg_pHash args of None \<Rightarrow> Sha1 | Some h \<Rightarrow> h))
             (arg_bIncludeNames args) (arg_excludeSpecList args) of
        None \<Rightarrow> None
      | Some (dwError, pHash') \<Rightarrow> Some (report x (argv ! 1) args dwError pHash'))"
  using assms by (simp add: tmain_def Let_def not_less [symmetric])

lemma hex_digit_range:
  assumes "n < 16"
  shows "(0x30 \<le> hex_digit n \<and> hex_digit n \<le> 0x39)
       \<or> (0x41 \<le> hex_digit n \<and> hex_digit n \<le> 0x46)"
proof (cases "n < 10")
  case True
  then have "unat (of_nat (48 + n) :: TCHAR) = 48 + n"
    by (subst unat_of_nat) simp
  with True show ?thesis
    by (simp add: hex_digit_def word_le_nat_alt)
next
  case False
  with assms have "unat (of_nat (55 + n) :: TCHAR) = 55 + n"
    by (subst unat_of_nat) simp
  with False assms show ?thesis
    by (simp add: hex_digit_def word_le_nat_alt)
qed

lemma unat_byte_div: "unat (b :: BYTE) div 16 < 16"
proof -
  have "unat b < 2 ^ 8" using unsigned_less [of b] by simp
  then show ?thesis by simp
qed

lemma hex2_chars:
  "c \<in> set (hex2 b) \<Longrightarrow> (0x30 \<le> c \<and> c \<le> 0x39) \<or> (0x41 \<le> c \<and> c \<le> 0x46)"
  using hex_digit_range [OF unat_byte_div [of b]] hex_digit_range [of "unat b mod 16"]
  by (auto simp: hex2_def)

lemma length_hex: "length (concat (map hex2 bytes)) = 2 * length bytes"
  by (induction bytes) (simp_all add: hex2_def)

text \<open>
  C8 (as amended). On success the line written to standard output is
  \<open>ALGO (N bytes) = HEX\<close> and a newline; the line appended to the result file of
  \<open>-t\<close> is not the same text: it is \<open>ALGO hash of "NAME" (N bytes) = HEX\<close> and a
  newline, \<open>NAME\<close> being the file-name part of the input path. Both carry the same
  \<open>HEX\<close>: two digits per digest byte, each a decimal digit or a letter A to F, in all
  twice the digest size (for a digest function that delivers \<open>GetHashSize\<close> bytes).
\<close>

theorem result_lines:
  assumes "2 \<le> length argv"
    and "parse_args (fopen_append w) (drop 2 argv) no_options = Inr args"
    and "StringCchLength x (argv ! 1) MAX_PATH \<le> MAX_PATH - 3"
    and "path_node w (argv ! 1) = Some node"
    and "hash_root x (argv ! 1) node
           (Init (case arg_pHash args of None \<Rightarrow> Sha1 | Some h \<Rightarrow> h))
           (arg_bIncludeNames args) (arg_excludeSpecList args) = Some (0, pHash')"
    and "\<forall>h bytes. length (digest x h bytes) = GetHashSize h"
  shows "\<exists>r a hex.
           tmain x w argv = Some r
         \<and> a = (case arg_pHash args of None \<Rightarrow> Sha1 | Some h \<Rightarrow> h)
         \<and> hex = concat (map hex2 (Final x pHash'))
         \<and> status r = 0
         \<and> stdout_line r
             = Some (GetID a @ wide '' ('' @ decimal (GetHashSize a) @ wide '' bytes) = '' @ hex
                     @ [0x0A])
         \<and> file_line r
             = (case arg_outputFile args of
                  None \<Rightarrow> None
                | Some name \<Rightarrow>
                    Some (GetID a @ wide '' hash of '' @ [0x22] @ PathFindFileName x (argv ! 1)
                          @ [0x22] @ wide '' ('' @ decimal (GetHashSize a) @ wide '' bytes) = ''
                          @ hex @ [0x0A]))
         \<and> length hex = 2 * GetHashSize a
         \<and> (\<forall>c \<in> set hex. (0x30 \<le> c \<and> c \<le> 0x39) \<or> (0x41 \<le> c \<and> c \<le> 0x46))"
proof -
  let ?a = "case arg_pHash args of None \<Rightarrow> Sha1 | Some h \<Rightarrow> h"
  let ?hex = "concat (map hex2 (Final x pHash'))"
  from hash_root_algo [OF assms(5)] have a: "algo pHash' = ?a" by (simp add: Init_def)
  from assms(6) a have len: "length (Final x pHash') = GetHashSize ?a"
    by (simp add: Final_def)
  have t: "tmain x w argv = Some (report x (argv ! 1) args 0 pHash')"
    using tmain_checked [OF assms(1-4)] assms(5) by simp
  have h: "\<forall>c \<in> set ?hex. (0x30 \<le> c \<and> c \<le> 0x39) \<or> (0x41 \<le> c \<and> c \<le> 0x46)"
    using hex2_chars by auto
  have "status (report x (argv ! 1) args 0 pHash') = 0"
    "stdout_line (report x (argv ! 1) args 0 pHash')
       = Some (GetID ?a @ wide '' ('' @ decimal (GetHashSize ?a) @ wide '' bytes) = '' @ ?hex
               @ [0x0A])"
    "file_line (report x (argv ! 1) args 0 pHash')
       = (case arg_outputFile args of
            None \<Rightarrow> None
          | Some name \<Rightarrow>
              Some (GetID ?a @ wide '' hash of '' @ [0x22] @ PathFindFileName x (argv ! 1)
                    @ [0x22] @ wide '' ('' @ decimal (GetHashSize ?a) @ wide '' bytes) = ''
                    @ ?hex @ [0x0A]))"
    using a len by (simp_all add: report_def NO_ERROR_def Let_def split: option.splits)
  with t h len show ?thesis by (simp add: length_hex)
qed
theorem result_lines_witness:
  "2 \<le> length [wide ''DirHash.exe'', wide ''f'', wide ''-t'', wide ''out.txt'', wide ''md5'']
   \<and> parse_args (fopen_append \<lparr>fopen_append = \<lambda>name. True,
                                 path_node = \<lambda>p. Some (FsFile (Inr (ascii ''hello'')))\<rparr>)
         (drop 2 [wide ''DirHash.exe'', wide ''f'', wide ''-t'', wide ''out.txt'', wide ''md5''])
         no_options
       = Inr \<lparr>arg_outputFile = Some (wide ''out.txt''), arg_bDontWait = False,
              arg_bIncludeNames = False, arg_excludeSpecList = [], arg_pHash = Some Md5\<rparr>
   \<and> StringCchLength sample (wide ''f'') MAX_PATH \<le> MAX_PATH - 3
   \<and> hash_root sample (wide ''f'') (FsFile (Inr (ascii ''hello''))) (Init Md5) False []
       = Some (0, \<lparr>algo = Md5, m_ctx = [ascii ''hello'']\<rparr>)
   \<and> (\<forall>h bytes. length (digest sample h bytes) = GetHashSize h)
   \<and> (\<exists>r. tmain sample \<lparr>fopen_append = \<lambda>name. True,
                          path_node = \<lambda>p. Some (FsFile (Inr (ascii ''hello'')))\<rparr>
             [wide ''DirHash.exe'', wide ''f'', wide ''-t'', wide ''out.txt'', wide ''md5'']
           = Some r
         \<and> status r = 0
         \<and> stdout_line r
             = Some (wide ''MD5 (16 bytes) = 68656C6C6F0000000000000000000000'' @ [0x0A])
         \<and> file_line r
             = Some (wide ''MD5 hash of '' @ [0x22] @ wide ''f'' @ [0x22]
                     @ wide '' (16 bytes) = 68656C6C6F0000000000000000000000'' @ [0x0A]))"
proof -
  let ?w = "\<lparr>fopen_append = \<lambda>name. True,
             path_node = \<lambda>p. Some (FsFile (Inr (ascii ''hello'')))\<rparr>"
  let ?argv = "[wide ''DirHash.exe'', wide ''f'', wide ''-t'', wide ''out.txt'', wide ''md5'']"
  let ?args = "\<lparr>arg_outputFile = Some (wide ''out.txt''), arg_bDontWait = False,
                arg_bIncludeNames = False, arg_excludeSpecList = [], arg_pHash = Some Md5\<rparr>"
  let ?h = "\<lparr>algo = Md5, m_ctx = [ascii ''hello'']\<rparr>"
  have 1: "2 \<le> length ?argv" by simp
  have 2: "parse_args (fopen_append ?w) (drop 2 ?argv) no_options = Inr ?args" by code_simp
  have 3: "StringCchLength sample (?argv ! 1) MAX_PATH \<le> MAX_PATH - 3" by code_simp
  have 4: "path_node ?w (?argv ! 1) = Some (FsFile (Inr (ascii ''hello'')))" by simp
  have 5: "hash_root sample (?argv ! 1) (FsFile (Inr (ascii ''hello'')))
             (Init (case arg_pHash ?args of None \<Rightarrow> Sha1 | Some h \<Rightarrow> h))
             (arg_bIncludeNames ?args) (arg_excludeSpecList ?args) = Some (0, ?h)"
    by code_simp
  have 6: "\<forall>h bytes. length (digest sample h bytes) = GetHashSize h"
    by (auto simp: sample_def sample_digest_def)
  have s: "GetID Md5 @ wide '' ('' @ decimal (GetHashSize Md5) @ wide '' bytes) = ''
             @ concat (map hex2 (Final sample ?h)) @ [0x0A]
           = wide ''MD5 (16 bytes) = 68656C6C6F0000000000000000000000'' @ [0x0A]"
    by code_simp
  have f: "GetID Md5 @ wide '' hash of '' @ [0x22] @ PathFindFileName sample (?argv ! 1)
             @ [0x22] @ wide '' ('' @ decimal (GetHashSize Md5) @ wide '' bytes) = ''
             @ concat (map hex2 (Final sample ?h)) @ [0x0A]
           = wide ''MD5 hash of '' @ [0x22] @ wide ''f'' @ [0x22]
               @ wide '' (16 bytes) = 68656C6C6F0000000000000000000000'' @ [0x0A]"
    by code_simp
  from result_lines [OF 1 2 3 4 5 6] obtain r where
    "tmain sample ?w ?argv = Some r" "status r = 0"
    "stdout_line r = Some (GetID Md5 @ wide '' ('' @ decimal (GetHashSize Md5)
        @ wide '' bytes) = '' @ concat (map hex2 (Final sample ?h)) @ [0x0A])"
    "file_line r = Some (GetID Md5 @ wide '' hash of '' @ [0x22]
        @ PathFindFileName sample (?argv ! 1) @ [0x22] @ wide '' ('' @ decimal (GetHashSize Md5)
        @ wide '' bytes) = '' @ concat (map hex2 (Final sample ?h)) @ [0x0A])"
    by auto
  then have "\<exists>r. tmain sample ?w ?argv = Some r \<and> status r = 0
         \<and> stdout_line r
             = Some (wide ''MD5 (16 bytes) = 68656C6C6F0000000000000000000000'' @ [0x0A])
         \<and> file_line r
             = Some (wide ''MD5 hash of '' @ [0x22] @ wide ''f'' @ [0x22]
                     @ wide '' (16 bytes) = 68656C6C6F0000000000000000000000'' @ [0x0A])"
    unfolding s f by blast
  moreover have "hash_root sample (wide ''f'') (FsFile (Inr (ascii ''hello''))) (Init Md5) False []
       = Some (0, ?h)"
    using 5 by simp
  moreover have "StringCchLength sample (wide ''f'') MAX_PATH \<le> MAX_PATH - 3"
    using 3 by simp
  ultimately show ?thesis using 1 2 6 by blast
qed

text \<open>
  C8 as stated fails: the two texts are not identical. With \<open>-t\<close> the run below writes
  \<open>MD5 (16 bytes) = ...\<close> to standard output and \<open>MD5 hash of "f" (16 bytes) = ...\<close>
  to the result file (the digest shown is that of the sample digest function).
\<close>

theorem result_file_line_differs_counterexample:
  "tmain sample \<lparr>fopen_append = \<lambda>name. True,
                 path_node = \<lambda>p. Some (FsFile (Inr (ascii ''hello'')))\<rparr>
     [wide ''DirHash.exe'', wide ''f'', wide ''-t'', wide ''out.txt'', wide ''md5'']
   = Some \<lparr>status = 0,
           pbDigest = Some (ascii ''hello'' @ replicate 11 0),
           stdout_line =
             Some (wide ''MD5 (16 bytes) = 68656C6C6F0000000000000000000000'' @ [0x0A]),
           file_line =
             Some (wide ''MD5 hash of '' @ [0x22] @ wide ''f'' @ [0x22]
                   @ wide '' (16 bytes) = 68656C6C6F0000000000000000000000'' @ [0x0A])\<rparr>
   \<and> wide ''MD5 (16 bytes) = 68656C6C6F0000000000000000000000'' @ [0x0A]
       \<noteq> wide ''MD5 hash of '' @ [0x22] @ wide ''f'' @ [0x22]
           @ wide '' (16 bytes) = 68656C6C6F0000000000000000000000'' @ [0x0A]"
  by code_simp

lemma hash_root_visit:
  "argv1 \<noteq> [] \<Longrightarrow>
     hash_root x argv1 node pHash bIncludeNames excludeSpecList
       = visit x (\<lparr>m_szPath = root_path argv1 node, m_bIsDir = is_dir node\<rparr>, node)
           pHash bIncludeNames excludeSpecList"
  by (cases node) (simp_all add: hash_root_def visit_def root_path_def GetPath_def)

text \<open>
  C9. When the path under which the root is hashed is no longer than \<open>MAX_PATH\<close> and
  matches one of the patterns, the traversal returns 0 at once with the hash object as
  \<open>Init\<close> left it, and the run is a success: exit status 0, the digest read is the
  algorithm's digest of no bytes, and that digest is printed.
\<close>

theorem excluded_root_is_success:
  assumes "2 \<le> length argv"
    and "parse_args (fopen_append w) (drop 2 argv) no_options = Inr args"
    and "StringCchLength x (argv ! 1) MAX_PATH \<le> MAX_PATH - 3"
    and "path_node w (argv ! 1) = Some node"
    and "argv ! 1 \<noteq> []"
    and "length (root_path (argv ! 1) node) \<le> MAX_PATH"
    and "arg_excludeSpecList args \<noteq> []"
    and "IsExcludedName x (root_path (argv ! 1) node) (arg_excludeSpecList args)"
  shows "\<exists>r a.
           a = (case arg_pHash args of None \<Rightarrow> Sha1 | Some h \<Rightarrow> h)
         \<and> hash_root x (argv ! 1) node (Init a) (arg_bIncludeNames args)
               (arg_excludeSpecList args) = Some (0, Init a)
         \<and> tmain x w argv = Some r
         \<and> status r = 0
         \<and> pbDigest r = Some (digest x a [])
         \<and> stdout_line r
             = Some (GetID a @ wide '' ('' @ decimal (GetHashSize a) @ wide '' bytes) = ''
                     @ concat (map hex2 (take (GetHashSize a) (digest x a []))) @ [0x0A])"
proof -
  let ?a = "case arg_pHash args of None \<Rightarrow> Sha1 | Some h \<Rightarrow> h"
  have "skipped x (GetPath (fst (\<lparr>m_szPath = root_path (argv ! 1) node,
                                   m_bIsDir = is_dir node\<rparr>, node)))
          (arg_excludeSpecList args)"
    using assms(6-8) by (simp add: skipped_def GetPath_def)
  from visit_skipped [OF this] assms(5)
  have h: "hash_root x (argv ! 1) node (Init ?a) (arg_bIncludeNames args)
             (arg_excludeSpecList args) = Some (0, Init ?a)"
    by (simp add: hash_root_visit)
  have t: "tmain x w argv = Some (report x (argv ! 1) args 0 (Init ?a))"
    using tmain_checked [OF assms(1-4)] h by simp
  have "status (report x (argv ! 1) args 0 (Init ?a)) = 0"
    "pbDigest (report x (argv ! 1) args 0 (Init ?a)) = Some (digest x ?a [])"
    "stdout_line (report x (argv ! 1) args 0 (Init ?a))
       = Some (GetID ?a @ wide '' ('' @ decimal (GetHashSize ?a) @ wide '' bytes) = ''
               @ concat (map hex2 (take (GetHashSize ?a) (digest x ?a []))) @ [0x0A])"
    by (simp_all add: report_def NO_ERROR_def Let_def Final_def Init_def)
  with h t show ?thesis by simp
qed

theorem excluded_root_is_success_witness:
  "2 \<le> length [wide ''DirHash.exe'', wide ''build'' @ [0x5C], wide ''-exclude'', wide ''b*'']
   \<and> parse_args (\<lambda>name. True) [wide ''-exclude'', wide ''b*''] no_options
       = Inr \<lparr>arg_outputFile = None, arg_bDontWait = False, arg_bIncludeNames = False,
              arg_excludeSpecList = [wide ''b*''], arg_pHash = None\<rparr>
   \<and> StringCchLength sample (wide ''build'' @ [0x5C]) MAX_PATH \<le> MAX_PATH - 3
   \<and> root_path (wide ''build'' @ [0x5C])
        (FsDir [(wide ''.'', FsDir [] 0), (wide ''a.txt'', FsFile (Inr (ascii ''hello'')))]
           ERROR_NO_MORE_FILES) = wide ''build''
   \<and> IsExcludedName sample (wide ''build'') [wide ''b*'']
   \<and> (\<exists>r. tmain sample
             \<lparr>fopen_append = \<lambda>name. True,
              path_node = \<lambda>p. Some (FsDir [(wide ''.'', FsDir [] 0),
                                            (wide ''a.txt'', FsFile (Inr (ascii ''hello'')))]
                                       ERROR_NO_MORE_FILES)\<rparr>
             [wide ''DirHash.exe'', wide ''build'' @ [0x5C], wide ''-exclude'', wide ''b*'']
           = Some r
         \<and> status r = 0
         \<and> pbDigest r = Some (replicate 20 0)
         \<and> stdout_line r
             = Some (wide ''SHA1 (20 bytes) = 0000000000000000000000000000000000000000''
                     @ [0x0A]))"
proof -
  let ?node = "FsDir [(wide ''.'', FsDir [] 0), (wide ''a.txt'', FsFile (Inr (ascii ''hello'')))]
                 ERROR_NO_MORE_FILES"
  let ?w = "\<lparr>fopen_append = \<lambda>name. True, path_node = \<lambda>p. Some ?node\<rparr>"
  let ?argv = "[wide ''DirHash.exe'', wide ''build'' @ [0x5C], wide ''-exclude'', wide ''b*'']"
  let ?args = "\<lparr>arg_outputFile = None, arg_bDontWait = False, arg_bIncludeNames = False,
                arg_excludeSpecList = [wide ''b*''], arg_pHash = None\<rparr>"
  have 1: "2 \<le> length ?argv" by simp
  have 2: "parse_args (fopen_append ?w) (drop 2 ?argv) no_options = Inr ?args" by code_simp
  have 3: "StringCchLength sample (?argv ! 1) MAX_PATH \<le> MAX_PATH - 3" by code_simp
  have 4: "path_node ?w (?argv ! 1) = Some ?node" by simp
  have 5: "?argv ! 1 \<noteq> []" by simp
  have rp: "root_path (?argv ! 1) ?node = wide ''build''" by code_simp
  have 6: "length (root_path (?argv ! 1) ?node) \<le> MAX_PATH" by code_simp
  have 7: "arg_excludeSpecList ?args \<noteq> []" by simp
  have 8: "IsExcludedName sample (root_path (?argv ! 1) ?node) (arg_excludeSpecList ?args)"
    by code_simp
  have e: "GetID Sha1 @ wide '' ('' @ decimal (GetHashSize Sha1) @ wide '' bytes) = ''
             @ concat (map hex2 (take (GetHashSize Sha1) (replicate 20 0))) @ [0x0A]
           = wide ''SHA1 (20 bytes) = 0000000000000000000000000000000000000000'' @ [0x0A]"
    "digest sample Sha1 [] = replicate 20 0"
    by code_simp+
  from excluded_root_is_success [OF 1 2 3 4 5 6 7 8] obtain r where
    r: "tmain sample ?w ?argv = Some r" "status r = 0"
      "pbDigest r = Some (digest sample Sha1 [])"
      "stdout_line r = Some (GetID Sha1 @ wide '' ('' @ decimal (GetHashSize Sha1)
         @ wide '' bytes) = ''
         @ concat (map hex2 (take (GetHashSize Sha1) (digest sample Sha1 []))) @ [0x0A])"
    by auto
  then have "\<exists>r. tmain sample ?w ?argv = Some r \<and> status r = 0
         \<and> pbDigest r = Some (replicate 20 0)
         \<and> stdout_line r
             = Some (wide ''SHA1 (20 bytes) = 0000000000000000000000000000000000000000''
                     @ [0x0A])"
    unfolding e by blast
  moreover have "parse_args (\<lambda>name. True) [wide ''-exclude'', wide ''b*''] no_options = Inr ?args"
    using 2 by simp
  moreover have "StringCchLength sample (wide ''build'' @ [0x5C]) MAX_PATH \<le> MAX_PATH - 3"
    using 3 by simp
  moreover have "root_path (wide ''build'' @ [0x5C]) ?node = wide ''build''"
    using rp by simp
  moreover have "IsExcludedName sample (wide ''build'') [wide ''b*'']"
    by code_simp
  ultimately show ?thesis using 1 by blast
qed

section \<open>Errors\<close>

lemma HashDirContent_append:
  "HashDirContent x before pHash bIncludeNames excludeSpecList = Some (0, pHash1) \<Longrightarrow>
     HashDirContent x (before @ rest) pHash bIncludeNames excludeSpecList
       = HashDirContent x rest pHash1 bIncludeNames excludeSpecList"
proof (induction before arbitrary: pHash)
  case Nil
  then show ?case by simp
next
  case (Cons e before)
  then show ?case
    by (auto simp: HashDirContent_Cons split: option.splits if_splits)
qed

lemma HashDirContent_abort:
  assumes "HashDirContent x before pHash bIncludeNames excludeSpecList = Some (0, pHash1)"
    and "visit x e pHash1 bIncludeNames excludeSpecList = Some (dwError, pHash2)"
    and "dwError \<noteq> 0"
  shows "HashDirContent x (before @ e # after) pHash bIncludeNames excludeSpecList
           = Some (dwError, pHash2)"
  using assms(2,3) by (simp add: HashDirContent_append [OF assms(1)] HashDirContent_Cons)

lemma aborts_visit:
  "aborts x bIncludeNames excludeSpecList e pHash dwError pHash' \<Longrightarrow>
     visit x e pHash bIncludeNames excludeSpecList = Some (dwError, pHash') \<and> dwError \<noteq> 0"
proof (induction rule: aborts.induct)
  case (file_open c errno pHash)
  then show ?case by (simp add: visit_def HashFile_eq)
next
  case (enumeration c entries lastError pHash)
  then show ?case
    by (auto simp: visit_def HashDirectory_eq FindFiles_eq)
next
  case (child c entries before e after pHash pHash1 dwError pHash2)
  from HashDirContent_abort [OF child.hyps(5), of e dwError pHash2 after] child.IH
  have "HashDirContent x (before @ e # after) (with_name x (GetPath c) bIncludeNames pHash)
          bIncludeNames excludeSpecList = Some (dwError, pHash2)"
    by simp
  with child.hyps(1-4) child.IH show ?case
    by (simp add: visit_def HashDirectory_listed)
qed

text \<open>
  C4. The first error aborts the run. In the loop of a directory, once the elements
  \<open>before\<close> are visited without error and the next visit returns a non-zero code,
  the loop returns that code with the hash object of that moment, whatever elements come
  \<open>after\<close>: none of them is visited. A first error anywhere below an element makes
  the visit of that element return its code, through every enclosing directory. And when
  the root meets a first error, the run exits with that code, which is not 0; \<open>Final\<close>
  is not called and no result line is written to standard output or to the result file.
\<close>

theorem first_error_aborts_run:
  "(HashDirContent x before pHash bIncludeNames excludeSpecList = Some (0, pHash1)
      \<and> visit x e pHash1 bIncludeNames excludeSpecList = Some (dwError, pHash2)
      \<and> dwError \<noteq> 0 \<longrightarrow>
        HashDirContent x (before @ e # after) pHash bIncludeNames excludeSpecList
          = Some (dwError, pHash2))
   \<and> (aborts x bIncludeNames excludeSpecList e pHash dwError pHash' \<longrightarrow>
        visit x e pHash bIncludeNames excludeSpecList = Some (dwError, pHash') \<and> dwError \<noteq> 0)
   \<and> (2 \<le> length argv
      \<and> parse_args (fopen_append w) (drop 2 argv) no_options = Inr args
      \<and> StringCchLength x (argv ! 1) MAX_PATH \<le> MAX_PATH - 3
      \<and> path_node w (argv ! 1) = Some node
      \<and> argv ! 1 \<noteq> []
      \<and> aborts x (arg_bIncludeNames args) (arg_excludeSpecList args)
           (\<lparr>m_szPath = root_path (argv ! 1) node, m_bIsDir = is_dir node\<rparr>, node)
           (Init (case arg_pHash args of None \<Rightarrow> Sha1 | Some h \<Rightarrow> h)) dwError pHash' \<longrightarrow>
        (\<exists>r. tmain x w argv = Some r
           \<and> status r = sint dwError \<and> status r \<noteq> 0
           \<and> pbDigest r = None \<and> stdout_line r = None \<and> file_line r = None))"
proof -
  have 3: "\<exists>r. tmain x w argv = Some r
           \<and> status r = sint dwError \<and> status r \<noteq> 0
           \<and> pbDigest r = None \<and> stdout_line r = None \<and> file_line r = None"
    if h: "2 \<le> length argv"
      "parse_args (fopen_append w) (drop 2 argv) no_options = Inr args"
      "StringCchLength x (argv ! 1) MAX_PATH \<le> MAX_PATH - 3"
      "path_node w (argv ! 1) = Some node"
      and ne: "argv ! 1 \<noteq> []"
      and a: "aborts x (arg_bIncludeNames args) (arg_excludeSpecList args)
           (\<lparr>m_szPath = root_path (argv ! 1) node, m_bIsDir = is_dir node\<rparr>, node)
           (Init (case arg_pHash args of None \<Rightarrow> Sha1 | Some h \<Rightarrow> h)) dwError pHash'"
  proof -
    from aborts_visit [OF a] ne
    have r: "hash_root x (argv ! 1) node
               (Init (case arg_pHash args of None \<Rightarrow> Sha1 | Some h \<Rightarrow> h))
               (arg_bIncludeNames args) (arg_excludeSpecList args) = Some (dwError, pHash')"
      and e: "dwError \<noteq> 0"
      by (simp_all add: hash_root_visit)
    from tmain_checked [OF h] r e
    have "tmain x w argv = Some (quit (sint dwError))"
      by (simp add: report_def NO_ERROR_def)
    with e show ?thesis by (simp add: quit_def sint_dword_0)
  qed
  from HashDirContent_abort [of x before pHash bIncludeNames excludeSpecList pHash1 e dwError
      pHash2 after]
    aborts_visit [of x bIncludeNames excludeSpecList e pHash dwError pHash'] 3
  show ?thesis by blast
qed
theorem first_error_aborts_run_witness:
  "2 \<le> length [wide ''DirHash.exe'', wide ''t'']
   \<and> parse_args (\<lambda>name. True) (drop 2 [wide ''DirHash.exe'', wide ''t'']) no_options
       = Inr no_options
   \<and> StringCchLength sample (wide ''t'') MAX_PATH \<le> MAX_PATH - 3
   \<and> aborts sample False []
        (\<lparr>m_szPath = wide ''t'', m_bIsDir = True\<rparr>,
         FsDir [(wide ''.'', FsDir [] 0),
                (wide ''sub'', FsDir [(wide ''b.txt'', FsFile (Inl 5)),
                                      (wide ''z.txt'', FsFile (Inr [0x7A]))]
                                 ERROR_NO_MORE_FILES),
                (wide ''a.txt'', FsFile (Inr [0x61]))]
           ERROR_NO_MORE_FILES)
        (Init Sha1) (- 1) \<lparr>algo = Sha1, m_ctx = [[0x61]]\<rparr>
   \<and> HashDirContent sample
        ([] @ (\<lparr>m_szPath = wide ''t'' @ [0x5C] @ wide ''sub'' @ [0x5C] @ wide ''b.txt'',
                 m_bIsDir = False\<rparr>, FsFile (Inl 5))
            # [(\<lparr>m_szPath = wide ''t'' @ [0x5C] @ wide ''sub'' @ [0x5C] @ wide ''z.txt'',
                 m_bIsDir = False\<rparr>, FsFile (Inr [0x7A]))])
        \<lparr>algo = Sha1, m_ctx = [[0x61]]\<rparr> False []
      = Some (- 1, \<lparr>algo = Sha1, m_ctx = [[0x61]]\<rparr>)
   \<and> (\<exists>r. tmain sample
             \<lparr>fopen_append = \<lambda>name. True,
              path_node = \<lambda>p. Some
                (FsDir [(wide ''.'', FsDir [] 0),
                        (wide ''sub'', FsDir [(wide ''b.txt'', FsFile (Inl 5)),
                                              (wide ''z.txt'', FsFile (Inr [0x7A]))]
                                         ERROR_NO_MORE_FILES),
                        (wide ''a.txt'', FsFile (Inr [0x61]))]
                   ERROR_NO_MORE_FILES)\<rparr>
             [wide ''DirHash.exe'', wide ''t'']
           = Some r
         \<and> status r = - 1 \<and> pbDigest r = None \<and> stdout_line r = None \<and> file_line r = None)"
proof -
  let ?sub = "[(wide ''b.txt'', FsFile (Inl 5)), (wide ''z.txt'', FsFile (Inr [0x7A]))]"
  let ?es = "[(wide ''.'', FsDir [] 0), (wide ''sub'', FsDir ?sub ERROR_NO_MORE_FILES),
              (wide ''a.txt'', FsFile (Inr [0x61]))]"
  let ?node = "FsDir ?es ERROR_NO_MORE_FILES"
  let ?w = "\<lparr>fopen_append = \<lambda>name. True, path_node = \<lambda>p. Some ?node\<rparr>"
  let ?argv = "[wide ''DirHash.exe'', wide ''t'']"
  let ?root = "\<lparr>m_szPath = wide ''t'', m_bIsDir = True\<rparr>"
  let ?csub = "\<lparr>m_szPath = wide ''t'' @ [0x5C] @ wide ''sub'', m_bIsDir = True\<rparr>"
  let ?ca = "\<lparr>m_szPath = wide ''t'' @ [0x5C] @ wide ''a.txt'', m_bIsDir = False\<rparr>"
  let ?cb = "\<lparr>m_szPath = wide ''t'' @ [0x5C] @ wide ''sub'' @ [0x5C] @ wide ''b.txt'',
               m_bIsDir = False\<rparr>"
  let ?cz = "\<lparr>m_szPath = wide ''t'' @ [0x5C] @ wide ''sub'' @ [0x5C] @ wide ''z.txt'',
               m_bIsDir = False\<rparr>"
  let ?h1 = "\<lparr>algo = Sha1, m_ctx = [[0x61]]\<rparr>"
  have 1: "2 \<le> length ?argv" by simp
  have 2: "parse_args (fopen_append ?w) (drop 2 ?argv) no_options = Inr no_options" by simp
  have 3: "StringCchLength sample (?argv ! 1) MAX_PATH \<le> MAX_PATH - 3" by code_simp
  have 4: "path_node ?w (?argv ! 1) = Some ?node" by simp
  have 5: "?argv ! 1 \<noteq> []" by (simp add: wide_def)
  have b: "aborts sample False [] (?cb, FsFile (Inl 5)) ?h1 (- 1)
             (with_name sample (GetPath ?cb) False ?h1)"
    by (rule aborts.file_open) (simp add: skipped_def)
  have s: "aborts sample False [] (?csub, FsDir ?sub ERROR_NO_MORE_FILES) ?h1 (- 1)
             (with_name sample (GetPath ?cb) False ?h1)"
  proof (rule aborts.child [where before = "[]" and e = "(?cb, FsFile (Inl 5))"
        and after = "[(?cz, FsFile (Inr [0x7A]))]" and ?pHash1.0 = ?h1])
    show "\<not> skipped sample (GetPath ?csub) []" by (simp add: skipped_def)
    show "GetPath ?csub \<noteq> []" by (simp add: GetPath_def)
    show "?sub \<noteq> []" by simp
    show "list_sort compare_content (map (content_of (GetPath ?csub)) (filter pushed ?sub))
            = [] @ (?cb, FsFile (Inl 5)) # [(?cz, FsFile (Inr [0x7A]))]"
      by code_simp
    show "HashDirContent sample [] (with_name sample (GetPath ?csub) False ?h1) False []
            = Some (0, ?h1)"
      by (simp add: with_name_def)
    show "aborts sample False [] (?cb, FsFile (Inl 5)) ?h1 (- 1)
            (with_name sample (GetPath ?cb) False ?h1)"
      by (rule b)
  qed
  have r: "aborts sample False [] (?root, ?node) (Init Sha1) (- 1)
             (with_name sample (GetPath ?cb) False ?h1)"
  proof (rule aborts.child [where before = "[(?ca, FsFile (Inr [0x61]))]"
        and e = "(?csub, FsDir ?sub ERROR_NO_MORE_FILES)" and after = "[]"
        and ?pHash1.0 = ?h1])
    show "\<not> skipped sample (GetPath ?root) []" by (simp add: skipped_def)
    show "GetPath ?root \<noteq> []" by (simp add: GetPath_def wide_def)
    show "?es \<noteq> []" by simp
    show "list_sort compare_content (map (content_of (GetPath ?root)) (filter pushed ?es))
            = [(?ca, FsFile (Inr [0x61]))] @ (?csub, FsDir ?sub ERROR_NO_MORE_FILES) # []"
      by code_simp
    show "HashDirContent sample [(?ca, FsFile (Inr [0x61]))]
            (with_name sample (GetPath ?root) False (Init Sha1)) False [] = Some (0, ?h1)"
      by code_simp
    show "aborts sample False [] (?csub, FsDir ?sub ERROR_NO_MORE_FILES) ?h1 (- 1)
            (with_name sample (GetPath ?cb) False ?h1)"
      by (rule s)
  qed
  have wn: "with_name sample (GetPath ?cb) False ?h1 = ?h1" by (simp add: with_name_def)
  have rp: "root_path (?argv ! 1) ?node = wide ''t''" by code_simp
  have a: "aborts (sample) (arg_bIncludeNames no_options) (arg_excludeSpecList no_options)
             (\<lparr>m_szPath = root_path (?argv ! 1) ?node, m_bIsDir = is_dir ?node\<rparr>, ?node)
             (Init (case arg_pHash no_options of None \<Rightarrow> Sha1 | Some h \<Rightarrow> h)) (- 1) ?h1"
    using r unfolding wn rp by (simp add: no_options_def)
  from first_error_aborts_run [where x = sample and w = ?w and argv = ?argv
      and args = no_options and node = ?node and dwError = "- 1" and pHash' = ?h1] 1 2 3 4 5 a
  have "\<exists>r. tmain sample ?w ?argv = Some r
           \<and> status r = sint (- 1 :: DWORD) \<and> status r \<noteq> 0
           \<and> pbDigest r = None \<and> stdout_line r = None \<and> file_line r = None"
    by blast
  then have t: "\<exists>r. tmain sample ?w ?argv = Some r
           \<and> status r = - 1 \<and> pbDigest r = None \<and> stdout_line r = None \<and> file_line r = None"
    by auto
  have ar: "aborts sample False [] (?root, ?node) (Init Sha1) (- 1) ?h1"
    using r unfolding wn .
  have "HashDirContent sample [] ?h1 False [] = Some (0, ?h1)
      \<and> visit sample (?cb, FsFile (Inl 5)) ?h1 False [] = Some (- 1, ?h1)
      \<and> (- 1 :: DWORD) \<noteq> 0"
    by code_simp
  with first_error_aborts_run [where x = sample and before = "[]" and pHash = ?h1
      and bIncludeNames = False and excludeSpecList = "[]" and ?pHash1.0 = ?h1
      and e = "(?cb, FsFile (Inl 5))" and dwError = "- 1" and ?pHash2.0 = ?h1
      and after = "[(?cz, FsFile (Inr [0x7A]))]"]
  have lp: "HashDirContent sample ([] @ (?cb, FsFile (Inl 5)) # [(?cz, FsFile (Inr [0x7A]))])
              ?h1 False [] = Some (- 1, ?h1)"
    by blast
  have p2: "parse_args (\<lambda>name. True) (drop 2 ?argv) no_options = Inr no_options" by simp
  have p3: "StringCchLength sample (wide ''t'') MAX_PATH \<le> MAX_PATH - 3" using 3 by simp
  from 1 p2 p3 ar lp t show ?thesis by blast
qed

section \<open>Exit status\<close>

lemma tmain_parsed:
  assumes "2 \<le> length argv"
    and "parse_args (fopen_append w) (drop 2 argv) no_options = Inr args"
  shows "tmain x w argv =
     (if StringCchLength x (argv ! 1) MAX_PATH > MAX_PATH - 3 then Some (quit (- 1))
      else case path_node w (argv ! 1) of
             None \<Rightarrow> Some (quit (- 2))
           | Some node \<Rightarrow>
               (case hash_root x (argv ! 1) node
                       (Init (case arg_pHash args of None \<Rightarrow> Sha1 | Some h \<Rightarrow> h))
                       (arg_bIncludeNames args) (arg_excludeSpecList args) of
                  None \<Rightarrow> None
                | Some (dwError, pHash') \<Rightarrow> Some (report x (argv ! 1) args dwError pHash')))"
  using assms by (simp add: tmain_def Let_def not_less [symmetric])

lemma status_report: "status (report x argv1 args dwError pHash) = sint dwError"
  by (simp add: report_def quit_def Let_def)

text \<open>
  C7 (as amended). The exit status is 1 for a usage error: no path argument, a switch
  \<open>-t\<close> or \<open>-exclude\<close> without its argument, a token that is neither a switch nor an
  algorithm, or a result file that does not open. For a command line that passes the
  argument loop it is -1 when the input path is longer than \<open>MAX_PATH - 3\<close> characters
  and shorter than \<open>MAX_PATH\<close> (where \<open>StringCchLength\<close> measures the path), with
  nothing hashed; -2 when the path passes that check and does not exist; and otherwise
  the code that the traversal returns, read as an \<open>int\<close>: 0 exactly on success, -1 when
  a file does not open (whatever error the system reported for it), and the
  \<open>GetLastError\<close> code when the enumeration of a directory fails.
\<close>

theorem exit_status:
  "(length argv < 2 \<longrightarrow> tmain x w argv = Some (quit 1))
   \<and> parse_args fopen_ok [wide ''-t''] args0 = Inl 1
   \<and> parse_args fopen_ok [wide ''-exclude''] args0 = Inl 1
   \<and> (\<not> fopen_ok name \<longrightarrow> parse_args fopen_ok (wide ''-t'' # name # rest) args0 = Inl 1)
   \<and> (a \<noteq> wide ''-t'' \<and> a \<noteq> wide ''-nowait'' \<and> a \<noteq> wide ''-hashnames''
        \<and> a \<noteq> wide ''-exclude'' \<and> GetHash (Some a) = None \<longrightarrow>
        parse_args fopen_ok (a # rest) args0 = Inl 1)
   \<and> (2 \<le> length argv \<and> parse_args (fopen_append w) (drop 2 argv) no_options = Inl code \<longrightarrow>
        code = 1 \<and> tmain x w argv = Some (quit 1))
   \<and> (2 \<le> length argv \<and> parse_args (fopen_append w) (drop 2 argv) no_options = Inr args \<longrightarrow>
        (MAX_PATH - 3 < length (argv ! 1) \<and> length (argv ! 1) < MAX_PATH
           \<and> StringCchLength x (argv ! 1) MAX_PATH = length (argv ! 1) \<longrightarrow>
           tmain x w argv = Some (quit (- 1)))
        \<and> (StringCchLength x (argv ! 1) MAX_PATH \<le> MAX_PATH - 3
             \<and> path_node w (argv ! 1) = None \<longrightarrow>
           tmain x w argv = Some (quit (- 2)))
        \<and> (StringCchLength x (argv ! 1) MAX_PATH \<le> MAX_PATH - 3
             \<and> path_node w (argv ! 1) = Some node
             \<and> hash_root x (argv ! 1) node
                  (Init (case arg_pHash args of None \<Rightarrow> Sha1 | Some h \<Rightarrow> h))
                  (arg_bIncludeNames args) (arg_excludeSpecList args) = Some (dwError, pHash') \<longrightarrow>
           (\<exists>r. tmain x w argv = Some r \<and> status r = sint dwError
              \<and> (status r = 0) = (dwError = 0)))
        \<and> (StringCchLength x (argv ! 1) MAX_PATH \<le> MAX_PATH - 3
             \<and> path_node w (argv ! 1) = Some (FsFile (Inl errno))
             \<and> \<not> skipped x (argv ! 1) (arg_excludeSpecList args) \<longrightarrow>
           tmain x w argv = Some (quit (- 1)))
        \<and> (StringCchLength x (argv ! 1) MAX_PATH \<le> MAX_PATH - 3
             \<and> path_node w (argv ! 1) = Some (FsDir entries lastError)
             \<and> root_path (argv ! 1) (FsDir entries lastError) \<noteq> []
             \<and> \<not> skipped x (root_path (argv ! 1) (FsDir entries lastError))
                   (arg_excludeSpecList args)
             \<and> (entries = [] \<or> lastError \<noteq> ERROR_NO_MORE_FILES) \<and> lastError \<noteq> 0 \<longrightarrow>
           tmain x w argv = Some (quit (sint lastError)) \<and> sint lastError \<noteq> 0))"
proof -
  have u0: "tmain x w argv = Some (quit 1)" if "length argv < 2"
    using that by (simp add: tmain_def)
  have u1: "parse_args fopen_ok [wide ''-t''] args0 = Inl 1" by simp
  have u2: "parse_args fopen_ok [wide ''-exclude''] args0 = Inl 1"
    by (simp add: wide_def)
  have u3: "parse_args fopen_ok (wide ''-t'' # name # rest) args0 = Inl 1" if "\<not> fopen_ok name"
    using that by simp
  have u4: "parse_args fopen_ok (a # rest) args0 = Inl 1"
    if "a \<noteq> wide ''-t'' \<and> a \<noteq> wide ''-nowait'' \<and> a \<noteq> wide ''-hashnames''
        \<and> a \<noteq> wide ''-exclude'' \<and> GetHash (Some a) = None"
    using that by simp
  have u5: "code = 1 \<and> tmain x w argv = Some (quit 1)"
    if "2 \<le> length argv" "parse_args (fopen_append w) (drop 2 argv) no_options = Inl code"
    using that parse_args_Inl [OF that(2)] by (simp add: tmain_def)
  {
    assume p: "2 \<le> length argv" "parse_args (fopen_append w) (drop 2 argv) no_options = Inr args"
    note t = tmain_parsed [OF p, of x]
    have 1: "tmain x w argv = Some (quit (- 1))"
      if "MAX_PATH - 3 < length (argv ! 1) \<and> length (argv ! 1) < MAX_PATH
           \<and> StringCchLength x (argv ! 1) MAX_PATH = length (argv ! 1)"
      using that by (simp add: t)
    have 2: "tmain x w argv = Some (quit (- 2))"
      if "StringCchLength x (argv ! 1) MAX_PATH \<le> MAX_PATH - 3 \<and> path_node w (argv ! 1) = None"
      using that by (simp add: t)
    have 3: "\<exists>r. tmain x w argv = Some r \<and> status r = sint dwError
              \<and> (status r = 0) = (dwError = 0)"
      if "StringCchLength x (argv ! 1) MAX_PATH \<le> MAX_PATH - 3
             \<and> path_node w (argv ! 1) = Some node
             \<and> hash_root x (argv ! 1) node
                  (Init (case arg_pHash args of None \<Rightarrow> Sha1 | Some h \<Rightarrow> h))
                  (arg_bIncludeNames args) (arg_excludeSpecList args) = Some (dwError, pHash')"
      using that by (simp add: t status_report sint_dword_0)
    have 4: "tmain x w argv = Some (quit (- 1))"
      if "StringCchLength x (argv ! 1) MAX_PATH \<le> MAX_PATH - 3
             \<and> path_node w (argv ! 1) = Some (FsFile (Inl errno))
             \<and> \<not> skipped x (argv ! 1) (arg_excludeSpecList args)"
      using that by (simp add: t hash_root_def HashFile_eq report_def NO_ERROR_def)
    have 5: "tmain x w argv = Some (quit (sint lastError)) \<and> sint lastError \<noteq> 0"
      if h: "StringCchLength x (argv ! 1) MAX_PATH \<le> MAX_PATH - 3
             \<and> path_node w (argv ! 1) = Some (FsDir entries lastError)
             \<and> root_path (argv ! 1) (FsDir entries lastError) \<noteq> []
             \<and> \<not> skipped x (root_path (argv ! 1) (FsDir entries lastError))
                   (arg_excludeSpecList args)
             \<and> (entries = [] \<or> lastError \<noteq> ERROR_NO_MORE_FILES) \<and> lastError \<noteq> 0"
    proof -
      let ?node = "FsDir entries lastError"
      let ?c = "\<lparr>m_szPath = root_path (argv ! 1) ?node, m_bIsDir = is_dir ?node\<rparr>"
      let ?h = "Init (case arg_pHash args of None \<Rightarrow> Sha1 | Some h \<Rightarrow> h)"
      have ne: "argv ! 1 \<noteq> []"
      proof
        assume "argv ! 1 = []"
        then have "root_path (argv ! 1) ?node = []" by (simp add: root_path_def)
        with h show False by blast
      qed
      have "aborts x (arg_bIncludeNames args) (arg_excludeSpecList args) (?c, ?node) ?h lastError
              (with_name x (GetPath ?c) (arg_bIncludeNames args) ?h)"
        using h by (intro aborts.enumeration) (simp_all add: GetPath_def)
      from aborts_visit [OF this] ne
      have "hash_root x (argv ! 1) ?node ?h (arg_bIncludeNames args) (arg_excludeSpecList args)
              = Some (lastError, with_name x (GetPath ?c) (arg_bIncludeNames args) ?h)"
        by (simp add: hash_root_visit)
      with h show ?thesis
        by (simp add: t report_def NO_ERROR_def sint_dword_0)
    qed
    note 1 2 3 4 5
  }
  note rest = this
  from u0 u1 u2 u3 u4 u5 rest show ?thesis by blast
qed
theorem exit_status_witness:
  "tmain sample sample_world [wide ''DirHash.exe''] = Some (quit 1)
   \<and> tmain sample sample_world [wide ''DirHash.exe'', wide ''e'', wide ''sha3'']
       = Some (quit 1)
   \<and> tmain sample sample_world [wide ''DirHash.exe'', replicate 258 0x61] = Some (quit (- 1))
   \<and> tmain sample sample_world [wide ''DirHash.exe'', wide ''missing''] = Some (quit (- 2))
   \<and> tmain sample sample_world [wide ''DirHash.exe'', wide ''f''] = Some (quit (- 1))
   \<and> tmain sample sample_world [wide ''DirHash.exe'', wide ''d''] = Some (quit 3)
   \<and> (\<exists>r. tmain sample sample_world [wide ''DirHash.exe'', wide ''e''] = Some r
          \<and> status r = 0)"
proof -
  let ?p = "wide ''DirHash.exe''"
  have a: "tmain sample sample_world [?p] = Some (quit 1)"
    using exit_status [where argv = "[?p]" and x = sample and w = sample_world] by simp
  have "parse_args (fopen_append sample_world) (drop 2 [?p, wide ''e'', wide ''sha3''])
          no_options = Inl 1"
    by code_simp
  with exit_status [where argv = "[?p, wide ''e'', wide ''sha3'']" and x = sample
      and w = sample_world and code = 1]
  have b: "tmain sample sample_world [?p, wide ''e'', wide ''sha3''] = Some (quit 1)"
    by simp
  have p: "parse_args (fopen_append sample_world) (drop 2 [?p, q]) no_options = Inr no_options"
    for q by simp
  have "MAX_PATH - 3 < length ([?p, replicate 258 0x61] ! 1 :: wstring)
      \<and> length ([?p, replicate 258 0x61] ! 1 :: wstring) < MAX_PATH
      \<and> StringCchLength sample ([?p, replicate 258 0x61] ! 1) MAX_PATH
          = length ([?p, replicate 258 0x61] ! 1 :: wstring)"
    by (simp add: MAX_PATH_def sample_def string_length_def)
  with exit_status [where argv = "[?p, replicate 258 0x61]" and x = sample
      and w = sample_world and args = no_options] p
  have c: "tmain sample sample_world [?p, replicate 258 0x61] = Some (quit (- 1))"
    by simp
  have s: "StringCchLength sample ([?p, wide q] ! 1) MAX_PATH \<le> MAX_PATH - 3"
    if "length q \<le> 257" for q
    using that by (simp add: MAX_PATH_def sample_def string_length_def wide_def)
  have "path_node sample_world ([?p, wide ''missing''] ! 1) = None" by code_simp
  with exit_status [where argv = "[?p, wide ''missing'']" and x = sample
      and w = sample_world and args = no_options] p s [of "''missing''"]
  have d: "tmain sample sample_world [?p, wide ''missing''] = Some (quit (- 2))"
    by simp
  have "path_node sample_world ([?p, wide ''f''] ! 1) = Some (FsFile (Inl 5))
      \<and> \<not> skipped sample ([?p, wide ''f''] ! 1) (arg_excludeSpecList no_options)"
    by code_simp
  with exit_status [where argv = "[?p, wide ''f'']" and x = sample
      and w = sample_world and args = no_options and errno = 5] p s [of "''f''"]
  have e: "tmain sample sample_world [?p, wide ''f''] = Some (quit (- 1))"
    by simp
  have "path_node sample_world ([?p, wide ''d''] ! 1) = Some (FsDir [] 3)
      \<and> root_path ([?p, wide ''d''] ! 1) (FsDir [] 3) \<noteq> []
      \<and> \<not> skipped sample (root_path ([?p, wide ''d''] ! 1) (FsDir [] 3))
            (arg_excludeSpecList no_options)
      \<and> (([] :: (wstring \<times> fsnode) list) = [] \<or> (3 :: DWORD) \<noteq> ERROR_NO_MORE_FILES)
      \<and> (3 :: DWORD) \<noteq> 0"
    by code_simp
  with exit_status [where argv = "[?p, wide ''d'']" and x = sample
      and w = sample_world and args = no_options and entries = "[]" and lastError = 3]
    p s [of "''d''"]
  have f: "tmain sample sample_world [?p, wide ''d''] = Some (quit (sint (3 :: DWORD)))"
    by simp
  have "path_node sample_world ([?p, wide ''e''] ! 1) = Some (FsFile (Inr []))
      \<and> hash_root sample ([?p, wide ''e''] ! 1) (FsFile (Inr []))
           (Init (case arg_pHash no_options of None \<Rightarrow> Sha1 | Some h \<Rightarrow> h))
           (arg_bIncludeNames no_options) (arg_excludeSpecList no_options)
          = Some (0, Init Sha1)"
    by code_simp
  with exit_status [where argv = "[?p, wide ''e'']" and x = sample
      and w = sample_world and args = no_options and node = "FsFile (Inr [])"
      and dwError = 0 and pHash' = "Init Sha1"] p s [of "''e''"]
  have g: "\<exists>r. tmain sample sample_world [?p, wide ''e''] = Some r \<and> status r = 0"
    by simp
  from a b c d e f g show ?thesis by simp
qed

text \<open>
  C7 as stated fails where it speaks of file-open failures. The file \<open>f\<close> does not
  open, the system reporting error 5; the exit status is -1, the status of a path that
  is too long, and not the code 5.
\<close>

theorem file_open_failure_status_counterexample:
  "path_node sample_world (wide ''f'') = Some (FsFile (Inl 5))
   \<and> tmain sample sample_world [wide ''DirHash.exe'', wide ''f'']
       = Some \<lparr>status = - 1, pbDigest = None, stdout_line = None, file_line = None\<rparr>
   \<and> tmain sample sample_world [wide ''DirHash.exe'', replicate 258 0x61]
       = Some \<lparr>status = - 1, pbDigest = None, stdout_line = None, file_line = None\<rparr>
   \<and> (- 1 :: int) \<noteq> sint (5 :: DWORD)"
  by code_simp

text \<open>
  With \<open>StringCchLength\<close> as strsafe.h implements it, a path of \<open>MAX_PATH\<close> characters
  or more is measured as 0 and passes the length check: here a path of 300 characters
  that does not exist yields -2.
\<close>

lemma long_input_path_passes_length_check:
  "tmain sample sample_world [wide ''DirHash.exe'', replicate 300 0x61] = Some (quit (- 2))"
  by code_simp

end
